theory Spec2Isabelle
  imports Complex_Main "HOL-Library.Log_Nat"
begin

section \<open>Vue3Vscroll: the cumulative-height index and the windowing algorithm\<close>

text \<open>
  A shallow embedding of the script of \<^verbatim>\<open>src/src/Vue3Vscroll.vue\<close>. The component keeps
  a flat array \<^verbatim>\<open>rowInfo\<close> (a binary-indexed tree over the row heights), the cached
  list length, and the window \<^verbatim>\<open>[startIdx, endIdx)\<close> with the cached tops of its two
  boundaries. Every function of the script that reads or writes these is a function on the
  record \<open>state\<close> below; the props are the record \<open>props\<close>, and the three values
  \<^verbatim>\<open>redraw\<close> reads from the DOM are the record \<open>env\<close>.

  Modelling decisions.
  \<^item> A JavaScript number is a real (\<open>Num\<close>) or \<open>NaN\<close>, and \<^verbatim>\<open>+\<close>, \<^verbatim>\<open>-\<close>, \<^verbatim>\<open>*\<close> and the
    comparisons are those of the reals. The program computes on IEEE doubles, so the model
    is the program wherever the doubles compute without rounding: on whole numbers up to
    \<open>2^53\<close> (the predicate \<open>whole\<close> below) and on the values of the concrete inputs of this
    file, which are whole numbers and halves. Rounding itself is not modelled. The general
    lemmas on the operations of the height index whose statement depends on sums being
    exact carry the hypothesis \<open>whole_heights\<close>; without it they do not hold of the program. With the
    heights 20, 21.2, 8.8, 20 the descent of \<^verbatim>\<open>getRowIdx(50)\<close> computes on doubles
    \<^verbatim>\<open>50 - 41.2 = 8.799999999999997\<close>, which is below 8.8, and answers 2, where the real
    numbers give 3.
  \<^item> \<open>Undefined\<close> is what reading an array outside its length (or a hole) gives.
    Arithmetic on \<open>Undefined\<close> or \<open>NaN\<close> gives \<open>NaN\<close> and every comparison with them is
    false, as in JavaScript.
  \<^item> Row indices and the power-of-two loop variable \<^verbatim>\<open>bit\<close> (written \<open>bt\<close>) are natural numbers, \<^verbatim>\<open>&\<close>
    and \<^verbatim>\<open>^\<close> are \<open>AND\<close> and \<open>XOR\<close> on them (the 32-bit conversion of JavaScript is the
    identity below \<open>2^31\<close>). \<^verbatim>\<open>getRowIdx\<close> returns an integer, since it answers \<open>-1\<close>.
  \<^item> \<^verbatim>\<open>nextTick(() => emit('updateHeight', a, b))\<close> appends \<open>(a, b)\<close> to the field
    \<open>emitted\<close>.
\<close>

unbundle bit_operations_syntax

subsection \<open>JavaScript values and arrays\<close>

datatype jsval = Num real | NaN | Undefined

fun js_add :: "jsval \<Rightarrow> jsval \<Rightarrow> jsval" where
  "js_add (Num a) (Num b) = Num (a + b)"
| "js_add _ _ = NaN"

fun js_sub :: "jsval \<Rightarrow> jsval \<Rightarrow> jsval" where
  "js_sub (Num a) (Num b) = Num (a - b)"
| "js_sub _ _ = NaN"

fun js_mul :: "jsval \<Rightarrow> jsval \<Rightarrow> jsval" where
  "js_mul (Num a) (Num b) = Num (a * b)"
| "js_mul _ _ = NaN"

fun js_min :: "jsval \<Rightarrow> jsval \<Rightarrow> jsval" where
  "js_min (Num a) (Num b) = Num (min a b)"
| "js_min _ _ = NaN"

fun js_lt :: "jsval \<Rightarrow> jsval \<Rightarrow> bool" where
  "js_lt (Num a) (Num b) = (a < b)"
| "js_lt _ _ = False"

fun js_gt :: "jsval \<Rightarrow> jsval \<Rightarrow> bool" where
  "js_gt (Num a) (Num b) = (a > b)"
| "js_gt _ _ = False"

fun js_ge :: "jsval \<Rightarrow> jsval \<Rightarrow> bool" where
  "js_ge (Num a) (Num b) = (a \<ge> b)"
| "js_ge _ _ = False"

text \<open>\<^verbatim>\<open>diff == 0\<close> for a \<^verbatim>\<open>diff\<close> that is the result of a subtraction.\<close>

fun js_eq0 :: "jsval \<Rightarrow> bool" where
  "js_eq0 (Num a) = (a = 0)"
| "js_eq0 _ = False"

text \<open>
  \<^verbatim>\<open>a[i]\<close> and \<^verbatim>\<open>a[i] = v\<close>. Reading at or after the length gives \<^verbatim>\<open>undefined\<close>; writing
  there extends the array, the skipped positions being holes (which read as \<^verbatim>\<open>undefined\<close>).
\<close>

definition aget :: "jsval list \<Rightarrow> nat \<Rightarrow> jsval" where
  "aget a i = (if i < length a then a ! i else Undefined)"

definition aset :: "jsval list \<Rightarrow> nat \<Rightarrow> jsval \<Rightarrow> jsval list" where
  "aset a i v =
     (if i < length a then a[i := v] else a @ replicate (i - length a) Undefined @ [v])"

text \<open>\<^verbatim>\<open>a[i] += d\<close>\<close>

definition aadd :: "jsval list \<Rightarrow> nat \<Rightarrow> jsval \<Rightarrow> jsval list" where
  "aadd a i d = aset a i (js_add (aget a i) d)"

subsection \<open>Props, environment and component state\<close>

text \<open>
  A row of the list: only its height attribute is read (\<open>None\<close> when the attribute is
  absent); \<open>key\<close> stands for the rest of the row.
\<close>

record row =
  key :: nat
  height :: "real option"

record props =
  list :: "row list"
  defaultHeight :: real
  headerHeight :: real
  footerHeight :: real
  viewportHeight :: "real option"
  padding :: "real option"
  hysteresis :: real

text \<open>
  \<^verbatim>\<open>viewport.scrollTop\<close>, \<^verbatim>\<open>viewport.getBoundingClientRect().y\<close> and
  \<^verbatim>\<open>window.innerHeight\<close>, as \<^verbatim>\<open>redraw\<close> reads them.
\<close>

record env =
  scrollTop :: real
  viewportTop :: real
  windowHeight :: real

record state =
  rowInfo :: "jsval list"
  listLength :: nat
  startIdx :: nat
  endIdx :: nat
  startTop :: jsval
  endTop :: jsval
  viewportHeight2 :: jsval
  screenHeight :: jsval
  vlist :: "row list"
  sheetStyle :: "jsval option"
  emitted :: "(nat \<times> nat) list"

definition defaultPaddingRatio :: real where
  "defaultPaddingRatio = 0.5"

text \<open>The refs as the script initialises them.\<close>

definition init :: state where
  "init = \<lparr> rowInfo = [], listLength = 0, startIdx = 0, endIdx = 0,
            startTop = Num 0, endTop = Num 0, viewportHeight2 = Num 0, screenHeight = Num 0,
            vlist = [], sheetStyle = None, emitted = [] \<rparr>"

subsection \<open>The height index\<close>

text \<open>\<^verbatim>\<open>bpt\<close>: \<^verbatim>\<open>Math.pow(2, Math.floor(Math.log2(listLength)))\<close>; for length 0 the
  logarithm is \<open>-\<infinity>\<close> and the power is 0.\<close>

definition bpt :: "nat \<Rightarrow> nat" where
  "bpt n = (if n = 0 then 0 else 2 ^ (floorlog 2 n - 1))"

text \<open>\<^verbatim>\<open>list.value[rowIdx]?.[props.heightAttrName] ?? defaultHeight.value\<close>\<close>

definition newHeight :: "props \<Rightarrow> nat \<Rightarrow> real" where
  "newHeight P rowIdx =
     (case (if rowIdx < length (list P) then height (list P ! rowIdx) else None) of
        Some x \<Rightarrow> x
      | None \<Rightarrow> defaultHeight P)"

text \<open>
  The \<^verbatim>\<open>while(bit < len)\<close> loop of \<^verbatim>\<open>update1\<close>. \<^verbatim>\<open>bit\<close> starts at 1 and is only doubled;
  the conjunct \<open>0 < bt\<close> is there for the function to be total.
\<close>

function update1_loop :: "jsval list \<Rightarrow> nat \<Rightarrow> jsval \<Rightarrow> nat \<Rightarrow> nat \<Rightarrow> jsval list" where
  "update1_loop info len diff bt ri =
     (if 0 < bt \<and> bt < len then
        (if ri AND bt = 0 then
           (if ri + bt \<ge> len then info
            else update1_loop (aadd info ((ri + bt) * 2 + 1) diff) len diff (bt * 2) (ri + bt))
         else update1_loop info len diff (bt * 2) ri)
      else info)"
  by pat_completeness auto
termination
  by (relation "measure (\<lambda>(info, len, diff, bt, ri). len - bt)") auto

definition update1 :: "props \<Rightarrow> state \<Rightarrow> nat \<Rightarrow> state" where
  "update1 P st rowIdx =
     (let info = rowInfo st;
          len = listLength st;
          diff = js_sub (Num (newHeight P rowIdx)) (aget info (rowIdx * 2))
      in if js_eq0 diff then st
         else st\<lparr>rowInfo :=
                update1_loop (aadd (aadd info (rowIdx * 2) diff) (rowIdx * 2 + 1) diff)
                  len diff 1 rowIdx\<rparr>)"

text \<open>\<^verbatim>\<open>updateRange\<close>: \<^verbatim>\<open>to\<close> is cut down to \<^verbatim>\<open>listLength\<close>, then \<^verbatim>\<open>update1\<close> runs for
  \<^verbatim>\<open>from, from+1, ..., to-1\<close>.\<close>

definition updateRange :: "props \<Rightarrow> state \<Rightarrow> nat \<Rightarrow> nat \<Rightarrow> state" where
  "updateRange P st from to =
     fold (\<lambda>ri s. update1 P s ri) [from ..< (if to > listLength st then listLength st else to)] st"

text \<open>\<^verbatim>\<open>s = ((ri ^ ri+1) + 1) / 2\<close>; the dividend is even, so the quotient is exact.\<close>

definition blockSize :: "nat \<Rightarrow> nat" where
  "blockSize ri = ((ri XOR (ri + 1)) + 1) div 2"

definition updateAll :: "props \<Rightarrow> state \<Rightarrow> state" where
  "updateAll P st =
     (let len = length (list P);
          dh = defaultHeight P;
          info = fold (\<lambda>ri info. aset (aset info (ri * 2) (Num dh))
                                    (ri * 2 + 1) (Num (dh * real (blockSize ri))))
                   [0 ..< len] (replicate (len * 2) Undefined)
      in st\<lparr>rowInfo := info, listLength := len\<rparr>)"

definition update :: "props \<Rightarrow> state \<Rightarrow> state" where
  "update P st =
     (let len = length (list P);
          oldLen = listLength st;
          st1 = (if oldLen = 0 then updateAll P st
                 else if len < oldLen then
                   st\<lparr>rowInfo := take (len * 2) (rowInfo st), listLength := len\<rparr>
                 else if len > oldLen then
                   updateRange P
                     (st\<lparr>rowInfo := rowInfo st @ replicate ((len - oldLen) * 2) (Num 0),
                         listLength := len\<rparr>)
                     oldLen len
                 else st)
      in updateRange P st1 (startIdx st1) (endIdx st1))"

text \<open>The \<^verbatim>\<open>while(bit <= upto)\<close> loop of \<^verbatim>\<open>getRowTop\<close>; \<open>0 < bt\<close> as above. When
  \<^verbatim>\<open>ri & bit\<close> is not 0, \<^verbatim>\<open>ri\<close> is at least 1 and the index \<^verbatim>\<open>ri * 2 - 1\<close> is not negative.\<close>

function getRowTop_loop :: "jsval list \<Rightarrow> nat \<Rightarrow> nat \<Rightarrow> jsval \<Rightarrow> nat \<Rightarrow> jsval" where
  "getRowTop_loop info upTo bt sm ri =
     (if 0 < bt \<and> bt \<le> upTo then
        (if ri AND bt \<noteq> 0 then
           getRowTop_loop info upTo (bt * 2) (js_add sm (aget info (ri * 2 - 1))) (ri - bt)
         else getRowTop_loop info upTo (bt * 2) sm ri)
      else sm)"
  by pat_completeness auto
termination
  by (relation "measure (\<lambda>(info, upTo, bt, sm, ri). Suc upTo - bt)") auto

definition getRowTop :: "state \<Rightarrow> nat \<Rightarrow> jsval" where
  "getRowTop st rowIdx =
     getRowTop_loop (rowInfo st) (min rowIdx (listLength st)) 1 (Num 0) rowIdx"

text \<open>The \<^verbatim>\<open>while(bit >= 1)\<close> loop of \<^verbatim>\<open>getRowIdx\<close>. \<^verbatim>\<open>bit /= 2\<close> halves a power of two
  down to 1 and then to 0.5, which ends the loop; here 1 is halved to 0.\<close>

function getRowIdx_loop :: "jsval list \<Rightarrow> jsval \<Rightarrow> nat \<Rightarrow> nat \<Rightarrow> nat" where
  "getRowIdx_loop info rest bt ri =
     (if bt \<ge> 1 then
        (let h = aget info ((ri + bt) * 2 - 1)
         in if js_ge rest h then getRowIdx_loop info (js_sub rest h) (bt div 2) (ri + bt)
            else getRowIdx_loop info rest (bt div 2) ri)
      else ri)"
  by pat_completeness auto
termination
  by (relation "measure (\<lambda>(info, rest, bt, ri). bt)") auto

definition getRowIdx :: "state \<Rightarrow> jsval \<Rightarrow> int" where
  "getRowIdx st rowTop =
     (if js_lt rowTop (Num 0) then - 1
      else int (getRowIdx_loop (rowInfo st) rowTop (bpt (listLength st)) 0))"

definition getTotalRowHeight :: "state \<Rightarrow> jsval" where
  "getTotalRowHeight st = getRowTop st (listLength st)"

subsection \<open>The window\<close>

definition getStartIdx :: "props \<Rightarrow> state \<Rightarrow> jsval \<Rightarrow> jsval \<Rightarrow> nat" where
  "getStartIdx P st topOffset padding2 =
     (let paddedTop1 = js_sub topOffset (js_mul padding2 (Num (1 + hysteresis P)));
          paddedTop2 = js_sub topOffset (js_mul padding2 (Num (1 - hysteresis P)))
      in if js_lt (startTop st) paddedTop1 \<or> js_gt (startTop st) paddedTop2
         then nat (max 0 (getRowIdx st (js_sub topOffset padding2)))
         else startIdx st)"

definition getEndIdx :: "props \<Rightarrow> state \<Rightarrow> jsval \<Rightarrow> jsval \<Rightarrow> nat" where
  "getEndIdx P st bottomOffset padding2 =
     (let paddedBottom1 = js_add bottomOffset (js_mul padding2 (Num (1 - hysteresis P)));
          paddedBottom2 = js_add bottomOffset (js_mul padding2 (Num (1 + hysteresis P)))
      in if js_lt (endTop st) paddedBottom1 \<or> js_gt (endTop st) paddedBottom2
         then nat (min (int (listLength st)) (getRowIdx st (js_add bottomOffset padding2) + 1))
         else endIdx st)"

text \<open>
  \<^verbatim>\<open>redraw\<close>, cut at its \<^verbatim>\<open>const\<close>s. \<open>redraw_sync\<close> is the state after \<^verbatim>\<open>update()\<close> and
  the two assignments to \<^verbatim>\<open>screenHeight\<close> and \<^verbatim>\<open>viewportHeight2\<close>; the other functions are
  the local constants, computed on that state.
\<close>

definition redraw_sync :: "props \<Rightarrow> state \<Rightarrow> state" where
  "redraw_sync P st =
     (let st1 = update P st;
          st2 = st1\<lparr>screenHeight :=
                  js_add (js_add (Num (headerHeight P)) (getTotalRowHeight st1))
                         (Num (footerHeight P))\<rparr>
      in st2\<lparr>viewportHeight2 :=
               (case viewportHeight P of None \<Rightarrow> screenHeight st2 | Some v \<Rightarrow> Num v)\<rparr>)"

definition padding2 :: "props \<Rightarrow> env \<Rightarrow> state \<Rightarrow> jsval" where
  "padding2 P E st =
     (case padding P of
        None \<Rightarrow> js_mul (js_min (Num (windowHeight E)) (viewportHeight2 st))
                  (Num defaultPaddingRatio)
      | Some p \<Rightarrow> Num p)"

definition topOffset :: "props \<Rightarrow> env \<Rightarrow> jsval" where
  "topOffset P E =
     (let visibleViewportTop = max 0 (- viewportTop E)
      in Num (scrollTop E + visibleViewportTop - headerHeight P))"

definition bottomOffset :: "props \<Rightarrow> env \<Rightarrow> state \<Rightarrow> jsval" where
  "bottomOffset P E st =
     (let visibleViewportHeight =
            js_min (viewportHeight2 st) (Num (windowHeight E - viewportTop E))
      in js_sub (js_add (Num (scrollTop E)) visibleViewportHeight) (Num (headerHeight P)))"

definition newStartIdx :: "props \<Rightarrow> env \<Rightarrow> state \<Rightarrow> nat" where
  "newStartIdx P E st = getStartIdx P st (topOffset P E) (padding2 P E st)"

definition newEndIdx :: "props \<Rightarrow> env \<Rightarrow> state \<Rightarrow> nat" where
  "newEndIdx P E st =
     max (newStartIdx P E st) (getEndIdx P st (bottomOffset P E st) (padding2 P E st))"

definition redraw :: "props \<Rightarrow> env \<Rightarrow> state \<Rightarrow> state" where
  "redraw P E st =
     (let st3 = redraw_sync P st;
          s = newStartIdx P E st3;
          e = newEndIdx P E st3
      in if s \<noteq> startIdx st3 \<or> e \<noteq> endIdx st3 then
           st3\<lparr>startIdx := s, endIdx := e,
               startTop := getRowTop st3 s, endTop := getRowTop st3 e,
               vlist := take (e - s) (drop s (list P)),
               sheetStyle := Some (getRowTop st3 s),
               emitted := emitted st3 @ [(s, e)]\<rparr>
         else st3)"


subsection \<open>Specification-level notions\<close>

text \<open>The direct sum \<^verbatim>\<open>h[0] + ... + h[k-1]\<close> of the stored row heights \<^verbatim>\<open>rowInfo[2*i]\<close>,
  added up from scratch with JavaScript's addition.\<close>

definition directSum :: "jsval list \<Rightarrow> nat \<Rightarrow> jsval" where
  "directSum info k = foldl js_add (Num 0) (map (\<lambda>i. aget info (i * 2)) [0 ..< k])"

text \<open>The window fields that a redraw publishes.\<close>

definition same_window :: "state \<Rightarrow> state \<Rightarrow> bool" where
  "same_window st st' \<longleftrightarrow>
     startIdx st' = startIdx st \<and> endIdx st' = endIdx st \<and>
     startTop st' = startTop st \<and> endTop st' = endTop st \<and>
     vlist st' = vlist st \<and> sheetStyle st' = sheetStyle st \<and> emitted st' = emitted st"

text \<open>
  The structure that the comment at \<^verbatim>\<open>rowInfo\<close> documents and \<^verbatim>\<open>checkRowInfo\<close> tests, for
  row heights \<open>h\<close>: \<^verbatim>\<open>rowInfo(ri*2) = h(ri)\<close> and \<^verbatim>\<open>rowInfo(ri*2+1) = sum(ri)\<close>, the sum of
  the last \<^verbatim>\<open>s\<close> heights up to \<^verbatim>\<open>ri\<close>, for every \<^verbatim>\<open>ri\<close> below the length.
\<close>

definition prefixSum :: "(nat \<Rightarrow> real) \<Rightarrow> nat \<Rightarrow> real" where
  "prefixSum h k = (\<Sum>j<k. h j)"

definition blockSum :: "(nat \<Rightarrow> real) \<Rightarrow> nat \<Rightarrow> real" where
  "blockSum h ri = (\<Sum>j = ri + 1 - blockSize ri ..< ri + 1. h j)"

definition rowInfo_ok :: "jsval list \<Rightarrow> nat \<Rightarrow> (nat \<Rightarrow> real) \<Rightarrow> bool" where
  "rowInfo_ok info len h \<longleftrightarrow>
     length info = len * 2 \<and>
     (\<forall>ri\<in>{0..<len}. info ! (ri * 2) = Num (h ri) \<and>
                      info ! (ri * 2 + 1) = Num (blockSum h ri))"

text \<open>
  Numbers on which the program's arithmetic is exact. A double holds every whole number
  up to \<open>2^53\<close>, and a sum or difference of doubles whose exact value is such a number is
  computed without rounding. \<open>whole_heights h len\<close>: the first \<open>len\<close> heights are whole and
  so is their total; every partial sum then is.
\<close>

definition whole :: "real \<Rightarrow> bool" where
  "whole x \<longleftrightarrow> real_of_int \<lfloor>x\<rfloor> = x \<and> 0 \<le> x \<and> x \<le> 2 ^ 53"

definition whole_heights :: "(nat \<Rightarrow> real) \<Rightarrow> nat \<Rightarrow> bool" where
  "whole_heights h len \<longleftrightarrow> (\<forall>i\<in>{0..<len}. whole (h i)) \<and> whole (prefixSum h len)"

text \<open>Row \<open>i\<close> lies in the block of heights that \<^verbatim>\<open>rowInfo[m*2+1]\<close> sums.\<close>

definition in_block :: "nat \<Rightarrow> nat \<Rightarrow> bool" where
  "in_block i m \<longleftrightarrow> m + 1 - blockSize m \<le> i \<and> i \<le> m"

text \<open>The state after the \<^verbatim>\<open>if\<close> chain of \<^verbatim>\<open>update\<close>, before the rows of the window are
  read again.\<close>

definition update_resized :: "props \<Rightarrow> state \<Rightarrow> state" where
  "update_resized P st =
     (if listLength st = 0 then updateAll P st
      else if length (list P) < listLength st then
        st\<lparr>rowInfo := take (length (list P) * 2) (rowInfo st), listLength := length (list P)\<rparr>
      else if length (list P) > listLength st then
        updateRange P
          (st\<lparr>rowInfo := rowInfo st @ replicate ((length (list P) - listLength st) * 2) (Num 0),
              listLength := length (list P)\<rparr>)
          (listLength st) (length (list P))
      else st)"

text \<open>What a range of point updates keeps of an array of \<open>m\<close> rows whose first \<open>n\<close> rows
  are \<open>info0\<close>, when the rows below \<open>n\<close> that it visits already store the new height.\<close>

definition keeps_prefix :: "jsval list \<Rightarrow> nat \<Rightarrow> nat \<Rightarrow> state \<Rightarrow> bool" where
  "keeps_prefix info0 n m s \<longleftrightarrow>
     listLength s = m \<and> length (rowInfo s) = 2 * m \<and> take (2 * n) (rowInfo s) = info0"

subsection \<open>Concrete inputs\<close>

text \<open>Rows without a height attribute, numbered from 0.\<close>

definition plain_rows :: "nat \<Rightarrow> row list" where
  "plain_rows n = map (\<lambda>i. \<lparr>key = i, height = None\<rparr>) [0 ..< n]"

text \<open>The scenario of the specification: 5 rows, default height 20, no padding, no
  hysteresis, a viewport of 40 pixels at the top of a window of 600 pixels.\<close>

definition scen_props :: props where
  "scen_props = \<lparr> list = plain_rows 5, defaultHeight = 20, headerHeight = 0,
       footerHeight = 0, viewportHeight = Some 40, padding = Some 0, hysteresis = 0 \<rparr>"

definition scen_props50 :: props where
  "scen_props50 = scen_props\<lparr>list := (plain_rows 5)[0 := \<lparr>key = 0, height = Some 50\<rparr>]\<rparr>"

definition scen_env :: "real \<Rightarrow> env" where
  "scen_env y = \<lparr> scrollTop = y, viewportTop = 0, windowHeight = 600 \<rparr>"

text \<open>A list that grows from one row to three while the index is not empty: default
  height 50, the two new rows with height 10.\<close>

definition grow_props1 :: props where
  "grow_props1 = \<lparr> list = plain_rows 1, defaultHeight = 50, headerHeight = 0,
       footerHeight = 0, viewportHeight = Some 40, padding = Some 0, hysteresis = 0 \<rparr>"

definition grow_props3 :: props where
  "grow_props3 = grow_props1\<lparr>list :=
      [\<lparr>key = 0, height = None\<rparr>, \<lparr>key = 1, height = Some 10\<rparr>, \<lparr>key = 2, height = Some 10\<rparr>]\<rparr>"

definition grown_state :: state where
  "grown_state = update grow_props3 (update grow_props1 init)"

text \<open>Twelve rows of height 20 with a padding of 40 and a hysteresis of 0.5 (so
  \<^verbatim>\<open>padding * hysteresis\<close> is 20), and the same props once the list has shrunk to five
  rows.\<close>

definition hyst_props :: props where
  "hyst_props = \<lparr> list = plain_rows 12, defaultHeight = 20, headerHeight = 0,
       footerHeight = 0, viewportHeight = Some 40, padding = Some 40, hysteresis = 0.5 \<rparr>"

definition hyst_props5 :: props where
  "hyst_props5 = hyst_props\<lparr>list := plain_rows 5\<rparr>"

text \<open>The component after its first redraw at scroll position \<open>y\<close>.\<close>

definition hyst_state :: "real \<Rightarrow> state" where
  "hyst_state y = redraw hyst_props (scen_env y) init"

text \<open>The window \<open>[0, 7)\<close> of the redraw at scroll position 50, after the list has shrunk
  to five rows and the component has redrawn at the same position.\<close>

definition stale_state :: state where
  "stale_state = redraw hyst_props5 (scen_env 50) (hyst_state 50)"

text \<open>The component of \<open>grow_props1\<close> after its first \<^verbatim>\<open>update()\<close>: one row of height 50.\<close>

definition one_row_state :: state where
  "one_row_state = update grow_props1 init"

text \<open>Four rows of heights 20, 0, 0, 30 in a viewport of 100 pixels: rows 1 and 2 share
  their top with row 3. The first redraw gives every row the default height and the window
  \<open>[0, 4)\<close>, the second reads the heights of the rows of the window.\<close>

definition zero_rows_props :: props where
  "zero_rows_props = \<lparr> list = [\<lparr>key = 0, height = Some 20\<rparr>, \<lparr>key = 1, height = Some 0\<rparr>,
         \<lparr>key = 2, height = Some 0\<rparr>, \<lparr>key = 3, height = Some 30\<rparr>],
       defaultHeight = 20, headerHeight = 0, footerHeight = 0, viewportHeight = Some 100,
       padding = Some 0, hysteresis = 0 \<rparr>"

definition zero_rows_state :: state where
  "zero_rows_state =
     redraw zero_rows_props (scen_env 0) (redraw zero_rows_props (scen_env 0) init)"

definition zero_rows_heights :: "nat \<Rightarrow> real" where
  "zero_rows_heights i = (if i = 0 then 20 else if i = 3 then 30 else 0)"

text \<open>The scenario after its first redraw (window \<open>[0, 3)\<close>), and the same props with
  eight rows.\<close>

definition scen_state :: state where
  "scen_state = redraw scen_props (scen_env 0) init"

definition scen_props8 :: props where
  "scen_props8 = scen_props\<lparr>list := plain_rows 8\<rparr>"

text \<open>One row of default height 50 after its first redraw (window \<open>[0, 1)\<close>); then lists of
  two rows and of one row in which row 0 has been measured at 70.\<close>

definition round_state :: state where
  "round_state = redraw grow_props1 (scen_env 0) init"

definition round_props2 :: props where
  "round_props2 = grow_props1\<lparr>list := [\<lparr>key = 0, height = Some 70\<rparr>, \<lparr>key = 1, height = None\<rparr>]\<rparr>"

definition round_props1 :: props where
  "round_props1 = grow_props1\<lparr>list := [\<lparr>key = 0, height = Some 70\<rparr>]\<rparr>"

section \<open>Unfolding the loops\<close>

declare update1_loop.simps [simp del]
declare getRowTop_loop.simps [simp del]
declare getRowIdx_loop.simps [simp del]

lemma update1_loop_stop:
  "\<not> (0 < bt \<and> bt < len) \<Longrightarrow> update1_loop info len diff bt ri = info"
  by (subst update1_loop.simps) auto

lemma update1_loop_skip:
  "0 < bt \<Longrightarrow> bt < len \<Longrightarrow> ri AND bt \<noteq> 0 \<Longrightarrow>
   update1_loop info len diff bt ri = update1_loop info len diff (bt * 2) ri"
  by (subst update1_loop.simps) auto

lemma update1_loop_exit:
  "0 < bt \<Longrightarrow> bt < len \<Longrightarrow> ri AND bt = 0 \<Longrightarrow> len \<le> ri + bt \<Longrightarrow>
   update1_loop info len diff bt ri = info"
  by (subst update1_loop.simps) auto

lemma update1_loop_step:
  "0 < bt \<Longrightarrow> bt < len \<Longrightarrow> ri AND bt = 0 \<Longrightarrow> ri + bt < len \<Longrightarrow>
   update1_loop info len diff bt ri =
   update1_loop (aadd info ((ri + bt) * 2 + 1) diff) len diff (bt * 2) (ri + bt)"
  by (subst update1_loop.simps) auto

lemma getRowIdx_loop_stop: "bt = 0 \<Longrightarrow> getRowIdx_loop info rest bt ri = ri"
  by (subst getRowIdx_loop.simps) auto

lemma getRowIdx_loop_take:
  "1 \<le> bt \<Longrightarrow> js_ge rest (aget info ((ri + bt) * 2 - 1)) \<Longrightarrow>
   getRowIdx_loop info rest bt ri =
   getRowIdx_loop info (js_sub rest (aget info ((ri + bt) * 2 - 1))) (bt div 2) (ri + bt)"
  by (subst getRowIdx_loop.simps) (auto simp: Let_def)

lemma getRowIdx_loop_skip:
  "1 \<le> bt \<Longrightarrow> \<not> js_ge rest (aget info ((ri + bt) * 2 - 1)) \<Longrightarrow>
   getRowIdx_loop info rest bt ri = getRowIdx_loop info rest (bt div 2) ri"
  by (subst getRowIdx_loop.simps) (auto simp: Let_def)

lemma getRowTop_loop_stop:
  "\<not> (0 < bt \<and> bt \<le> upTo) \<Longrightarrow> getRowTop_loop info upTo bt sm ri = sm"
  by (subst getRowTop_loop.simps) auto

lemma getRowTop_loop_take:
  "0 < bt \<Longrightarrow> bt \<le> upTo \<Longrightarrow> ri AND bt \<noteq> 0 \<Longrightarrow>
   getRowTop_loop info upTo bt sm ri =
   getRowTop_loop info upTo (bt * 2) (js_add sm (aget info (ri * 2 - 1))) (ri - bt)"
  by (subst getRowTop_loop.simps) auto

lemma getRowTop_loop_skip:
  "0 < bt \<Longrightarrow> bt \<le> upTo \<Longrightarrow> ri AND bt = 0 \<Longrightarrow>
   getRowTop_loop info upTo bt sm ri = getRowTop_loop info upTo (bt * 2) sm ri"
  by (subst getRowTop_loop.simps) auto

section \<open>Frame properties of the index operations\<close>

lemma same_window_refl: "same_window st st"
  by (simp add: same_window_def)

lemma same_window_trans: "same_window a b \<Longrightarrow> same_window b c \<Longrightarrow> same_window a c"
  by (simp add: same_window_def)

lemma update1_listLength [simp]: "listLength (update1 P st i) = listLength st"
  by (simp add: update1_def Let_def)

lemma update1_same_window: "same_window st (update1 P st i)"
  by (simp add: update1_def Let_def same_window_def)

lemma fold_update1_listLength [simp]:
  "listLength (fold (\<lambda>ri s. update1 P s ri) xs st) = listLength st"
  by (induction xs arbitrary: st) simp_all

lemma fold_update1_same_window:
  "same_window st (fold (\<lambda>ri s. update1 P s ri) xs st)"
proof (induction xs arbitrary: st)
  case Nil
  show ?case by (simp add: same_window_refl)
next
  case (Cons x xs)
  show ?case
    using same_window_trans [OF update1_same_window Cons.IH] by simp
qed

lemma updateRange_listLength [simp]: "listLength (updateRange P st a b) = listLength st"
  by (simp add: updateRange_def)

lemma updateRange_same_window: "same_window st (updateRange P st a b)"
  unfolding updateRange_def by (rule fold_update1_same_window)

lemma updateAll_listLength [simp]: "listLength (updateAll P st) = length (list P)"
  by (simp add: updateAll_def Let_def)

lemma updateAll_same_window: "same_window st (updateAll P st)"
  by (simp add: updateAll_def Let_def same_window_def)

lemma update_listLength [simp]: "listLength (update P st) = length (list P)"
  by (simp add: update_def Let_def)

lemma update_same_window: "same_window st (update P st)"
proof -
  have a: "same_window st (st\<lparr>rowInfo := r, listLength := n\<rparr>)" for r n
    by (simp add: same_window_def)
  show ?thesis
    unfolding update_def Let_def
    by (intro same_window_trans [OF _ updateRange_same_window])
       (auto intro: updateAll_same_window a same_window_refl
          same_window_trans [OF a updateRange_same_window])
qed

lemma redraw_sync_listLength [simp]: "listLength (redraw_sync P st) = length (list P)"
  by (simp add: redraw_sync_def Let_def)

lemma redraw_sync_same_window: "same_window st (redraw_sync P st)"
  using update_same_window [of st P]
  by (simp add: redraw_sync_def Let_def same_window_def)

section \<open>The array keeps two entries per row\<close>

lemma aset_length [simp]: "i < length a \<Longrightarrow> length (aset a i v) = length a"
  by (simp add: aset_def)

lemma aadd_length [simp]: "i < length a \<Longrightarrow> length (aadd a i d) = length a"
  by (simp add: aadd_def)

lemma update1_loop_length:
  "length info = 2 * len \<Longrightarrow> length (update1_loop info len diff bt ri) = 2 * len"
proof (induction info len diff bt ri rule: update1_loop.induct)
  case (1 info len diff bt ri)
  show ?case
  proof (cases "0 < bt \<and> bt < len")
    case False
    then show ?thesis using "1.prems" by (simp add: update1_loop_stop)
  next
    case True
    note run = this
    show ?thesis
    proof (cases "ri AND bt = 0")
      case False
      then show ?thesis
        using run "1.IH"(2) [OF run False "1.prems"] by (simp add: update1_loop_skip)
    next
      case True
      note clear = this
      show ?thesis
      proof (cases "ri + bt \<ge> len")
        case True
        then show ?thesis
          using run clear "1.prems" by (simp add: update1_loop_exit)
      next
        case False
        have a: "length (aadd info ((ri + bt) * 2 + 1) diff) = 2 * len"
          using "1.prems" False by simp
        show ?thesis
          using run clear False "1.IH"(1) [OF run clear False a]
          by (simp add: update1_loop_step)
      qed
    qed
  qed
qed
lemma update1_length:
  assumes "length (rowInfo st) = 2 * listLength st" and "i < listLength st"
  shows "length (rowInfo (update1 P st i)) = 2 * listLength st"
  using assms by (simp add: update1_def Let_def update1_loop_length)

lemma fold_update1_length:
  "length (rowInfo st) = 2 * listLength st \<Longrightarrow> \<forall>x\<in>set xs. x < listLength st \<Longrightarrow>
   length (rowInfo (fold (\<lambda>ri s. update1 P s ri) xs st)) = 2 * listLength st"
proof (induction xs arbitrary: st)
  case Nil
  then show ?case by simp
next
  case (Cons x xs)
  have "length (rowInfo (update1 P st x)) = 2 * listLength (update1 P st x)"
    using Cons.prems by (simp add: update1_length)
  moreover have "\<forall>y\<in>set xs. y < listLength (update1 P st x)"
    using Cons.prems by simp
  ultimately show ?case
    using Cons.IH [of "update1 P st x"] by simp
qed

lemma updateRange_length:
  "length (rowInfo st) = 2 * listLength st \<Longrightarrow>
   length (rowInfo (updateRange P st a b)) = 2 * listLength st"
  unfolding updateRange_def by (rule fold_update1_length) auto

lemma fold_fill_length:
  "\<forall>x\<in>set xs. f x < length info \<and> g x < length info \<Longrightarrow>
   length (fold (\<lambda>ri info. aset (aset info (f ri) (u ri)) (g ri) (w ri)) xs info) = length info"
  by (induction xs arbitrary: info) simp_all

lemma updateAll_length: "length (rowInfo (updateAll P st)) = 2 * length (list P)"
  by (simp add: updateAll_def Let_def fold_fill_length)

lemma update_length:
  assumes "length (rowInfo st) = 2 * listLength st"
  shows "length (rowInfo (update P st)) = 2 * length (list P)"
proof -
  let ?len = "length (list P)"
  let ?g = "st\<lparr>rowInfo := rowInfo st @ replicate ((?len - listLength st) * 2) (Num 0),
                 listLength := ?len\<rparr>"
  let ?st1 = "if listLength st = 0 then updateAll P st
              else if ?len < listLength st then
                st\<lparr>rowInfo := take (?len * 2) (rowInfo st), listLength := ?len\<rparr>
              else if ?len > listLength st then updateRange P ?g (listLength st) ?len
              else st"
  have g: "listLength st < ?len \<Longrightarrow> length (rowInfo ?g) = 2 * listLength ?g"
    using assms by simp
  have "length (rowInfo ?st1) = 2 * ?len \<and> listLength ?st1 = ?len"
    using assms updateRange_length [OF g] by (auto simp: updateAll_length)
  then have "length (rowInfo (updateRange P ?st1 (startIdx ?st1) (endIdx ?st1))) = 2 * ?len"
    using updateRange_length [of ?st1 P] by simp
  then show ?thesis
    by (simp add: update_def Let_def)
qed

lemma redraw_sync_length:
  "length (rowInfo st) = 2 * listLength st \<Longrightarrow>
   length (rowInfo (redraw_sync P st)) = 2 * length (list P)"
  by (simp add: redraw_sync_def Let_def update_length)



text \<open>
  \<^verbatim>\<open>update1\<close> relies on that cut and has no bounds check of its own. Were it called at index
  1 of an index of one row, which \<^verbatim>\<open>updateRange\<close> never does, it would read \<^verbatim>\<open>undefined\<close>,
  compute a \<^verbatim>\<open>NaN\<close> difference, which is not \<^verbatim>\<open>== 0\<close>, and write it past the end.
\<close>

lemma update1_unguarded:
  "listLength one_row_state = 1 \<and>
   rowInfo one_row_state = [Num 50, Num 50] \<and>
   rowInfo (update1 grow_props1 one_row_state 1) = [Num 50, Num 50, NaN, NaN]"
  by code_simp

section \<open>The redraw\<close>

text \<open>
  C6 (no-change frame condition). When \<^verbatim>\<open>redraw\<close> computes a \<^verbatim>\<open>newStartIdx\<close> equal to
  the current \<^verbatim>\<open>startIdx\<close> and a \<^verbatim>\<open>newEndIdx\<close> equal to the current \<^verbatim>\<open>endIdx\<close>, it leaves
  \<^verbatim>\<open>startIdx\<close>, \<^verbatim>\<open>endIdx\<close>, \<^verbatim>\<open>startTop\<close>, \<^verbatim>\<open>endTop\<close>, \<^verbatim>\<open>vlist\<close> and \<^verbatim>\<open>sheetStyle\<close> as they
  were and emits no \<^verbatim>\<open>updateHeight\<close>.
\<close>

theorem redraw_no_change_frame:
  assumes "newStartIdx P E (redraw_sync P st) = startIdx (redraw_sync P st)"
      and "newEndIdx P E (redraw_sync P st) = endIdx (redraw_sync P st)"
    shows "startIdx (redraw P E st) = startIdx st \<and> endIdx (redraw P E st) = endIdx st \<and>
           startTop (redraw P E st) = startTop st \<and> endTop (redraw P E st) = endTop st \<and>
           vlist (redraw P E st) = vlist st \<and> sheetStyle (redraw P E st) = sheetStyle st \<and>
           emitted (redraw P E st) = emitted st"
proof -
  have "redraw P E st = redraw_sync P st"
    using assms by (simp add: redraw_def Let_def)
  then show ?thesis
    using redraw_sync_same_window [of st P] by (simp add: same_window_def)
qed

text \<open>The second of two redraws of the scenario at the same scroll position.\<close>

theorem redraw_no_change_frame_witness:
  "newStartIdx scen_props (scen_env 0) (redraw_sync scen_props (redraw scen_props (scen_env 0) init))
     = startIdx (redraw_sync scen_props (redraw scen_props (scen_env 0) init)) \<and>
   newEndIdx scen_props (scen_env 0) (redraw_sync scen_props (redraw scen_props (scen_env 0) init))
     = endIdx (redraw_sync scen_props (redraw scen_props (scen_env 0) init)) \<and>
   endIdx (redraw scen_props (scen_env 0) (redraw scen_props (scen_env 0) init)) = 3 \<and>
   emitted (redraw scen_props (scen_env 0) (redraw scen_props (scen_env 0) init)) = [(0, 3)]"
proof -
  have h1: "newStartIdx scen_props (scen_env 0)
              (redraw_sync scen_props (redraw scen_props (scen_env 0) init))
            = startIdx (redraw_sync scen_props (redraw scen_props (scen_env 0) init))"
    by code_simp
  have h2: "newEndIdx scen_props (scen_env 0)
              (redraw_sync scen_props (redraw scen_props (scen_env 0) init))
            = endIdx (redraw_sync scen_props (redraw scen_props (scen_env 0) init))"
    by code_simp
  have e: "endIdx (redraw scen_props (scen_env 0) init) = 3"
    by code_simp
  have m: "emitted (redraw scen_props (scen_env 0) init) = [(0, 3)]"
    by code_simp
  show ?thesis
    using h1 h2 e m redraw_no_change_frame [OF h1 h2] by simp
qed

text \<open>
  C5 (end-to-end scenario), as the specification states it, fails at its first step: the
  initial redraw at \<^verbatim>\<open>scrollTop = 0\<close> does not end the window at 2. The bottom offset 40
  is the top of row 2, \<^verbatim>\<open>getRowIdx(40)\<close> is 2 and the exclusive end is 3.
\<close>

theorem scenario_initial_endIdx_counterexample:
  "\<not> (startIdx (redraw scen_props (scen_env 0) init) = 0 \<and>
      endIdx (redraw scen_props (scen_env 0) init) = 2)"
  by code_simp

text \<open>
  C5 as amended: in the scenario (5 rows, default height 20, padding 0, hysteresis 0,
  viewport height 40, no header or footer) the initial redraw at \<^verbatim>\<open>scrollTop = 0\<close> gives
  the window \<open>[0, 3)\<close>; once row 0 has height 50, the redraw at \<^verbatim>\<open>scrollTop = 0\<close> gives
  \<open>[0, 1)\<close>; and the redraw at \<^verbatim>\<open>scrollTop = 90\<close> then gives \<open>[3, 5)\<close>.
\<close>

theorem scenario_windows:
  "startIdx (redraw scen_props (scen_env 0) init) = 0 \<and>
   endIdx (redraw scen_props (scen_env 0) init) = 3 \<and>
   startIdx (redraw scen_props50 (scen_env 0) (redraw scen_props (scen_env 0) init)) = 0 \<and>
   endIdx (redraw scen_props50 (scen_env 0) (redraw scen_props (scen_env 0) init)) = 1 \<and>
   startIdx (redraw scen_props50 (scen_env 90)
     (redraw scen_props50 (scen_env 0) (redraw scen_props (scen_env 0) init))) = 3 \<and>
   endIdx (redraw scen_props50 (scen_env 90)
     (redraw scen_props50 (scen_env 0) (redraw scen_props (scen_env 0) init))) = 5"
  by code_simp

text \<open>The first step of the scenario takes the publishing branch of \<^verbatim>\<open>redraw\<close>: the new
  end index differs from the current one, and the window \<open>[0, 3)\<close> is emitted.\<close>

theorem scenario_windows_witness:
  "newEndIdx scen_props (scen_env 0) (redraw_sync scen_props init) = 3 \<and>
   endIdx (redraw_sync scen_props init) = 0 \<and>
   endIdx (redraw scen_props (scen_env 0) init) = 3 \<and>
   emitted (redraw scen_props (scen_env 0) init) = [(0, 3)]"
proof -
  have c: "newEndIdx scen_props (scen_env 0) (redraw_sync scen_props init) = 3"
    by code_simp
  have d: "endIdx (redraw_sync scen_props init) = 0"
    by code_simp
  have m: "emitted (redraw scen_props (scen_env 0) init) = [(0, 3)]"
    by code_simp
  show ?thesis
    using c d m scenario_windows by simp
qed

section \<open>The window stays in range\<close>

lemma js_ge_Num: "js_ge x h \<Longrightarrow> \<exists>a b. x = Num a \<and> h = Num b \<and> b \<le> a"
  by (cases x; cases h) auto

lemma aget_Num_in_range: "aget a i = Num x \<Longrightarrow> i < length a"
  by (auto simp: aget_def split: if_splits)

lemma getRowIdx_loop_le:
  "ri \<le> length info div 2 \<Longrightarrow> getRowIdx_loop info rest bt ri \<le> length info div 2"
proof (induction info rest bt ri rule: getRowIdx_loop.induct)
  case (1 info rest bt ri)
  show ?case
  proof (cases "bt \<ge> 1")
    case False
    then show ?thesis using "1.prems" by (simp add: getRowIdx_loop_stop)
  next
    case True
    note run = this
    let ?h = "aget info ((ri + bt) * 2 - 1)"
    show ?thesis
    proof (cases "js_ge rest ?h")
      case True
      then obtain b where "?h = Num b"
        using js_ge_Num by blast
      then have "(ri + bt) * 2 - 1 < length info"
        by (rule aget_Num_in_range)
      then have "ri + bt \<le> length info div 2"
        using run by presburger
      then show ?thesis
        using "1.IH"(1) [OF run refl True] by (simp add: getRowIdx_loop_take [OF run True])
    next
      case False
      show ?thesis
        using "1.IH"(2) [OF run refl False "1.prems"]
        by (simp add: getRowIdx_loop_skip [OF run False])
    qed
  qed
qed

lemma getRowIdx_le:
  "length (rowInfo st) = 2 * listLength st \<Longrightarrow> getRowIdx st x \<le> int (listLength st)"
  using getRowIdx_loop_le [of 0 "rowInfo st" x "bpt (listLength st)"]
  by (simp add: getRowIdx_def)

lemma getStartIdx_le:
  assumes "length (rowInfo st) = 2 * listLength st" and "startIdx st \<le> listLength st"
  shows "getStartIdx P st t p \<le> listLength st"
  using assms getRowIdx_le [OF assms(1), of "js_sub t p"]
  by (auto simp: getStartIdx_def Let_def)

lemma getEndIdx_le:
  assumes "endIdx st \<le> listLength st"
  shows "getEndIdx P st b p \<le> listLength st"
  using assms by (auto simp: getEndIdx_def Let_def)

lemma redraw_ordered: "startIdx (redraw P E st) \<le> endIdx (redraw P E st)"
proof (cases "newStartIdx P E (redraw_sync P st) \<noteq> startIdx (redraw_sync P st) \<or>
    newEndIdx P E (redraw_sync P st) \<noteq> endIdx (redraw_sync P st)")
  case True
  then show ?thesis
    by (simp add: redraw_def Let_def) (simp add: newEndIdx_def)
next
  case False
  then have "startIdx (redraw_sync P st) \<le> endIdx (redraw_sync P st)"
    by (metis max.cobounded1 newEndIdx_def)
  with False show ?thesis
    by (simp add: redraw_def Let_def)
qed

lemma redraw_listLength [simp]: "listLength (redraw P E st) = length (list P)"
  by (simp add: redraw_def Let_def)

lemma redraw_rowInfo: "rowInfo (redraw P E st) = rowInfo (redraw_sync P st)"
  by (simp add: redraw_def Let_def)

text \<open>
  C7 (window-range invariant) at a shrink of the list. Twelve rows of height 20, padding
  40, hysteresis 0.5: the redraw at \<^verbatim>\<open>scrollTop = 50\<close> gives the window \<open>[0, 7)\<close> with the
  tops 0 and 140. The list then shrinks to five rows. At the next redraw, still at
  \<^verbatim>\<open>scrollTop = 50\<close>, both tops lie inside their bands, \<^verbatim>\<open>getEndIdx\<close> returns the cached 7
  without the \<^verbatim>\<open>Math.min(len, ...)\<close> of its other branch, nothing is published, and the
  component keeps \<^verbatim>\<open>endIdx = 7\<close> over a list of 5 rows and a \<^verbatim>\<open>vlist\<close> of 7 rows where
  \<^verbatim>\<open>list.slice(startIdx, endIdx)\<close> has 5. The redraw at \<^verbatim>\<open>scrollTop = 60\<close> keeps it too.
\<close>

theorem shrink_keeps_stale_window:
  "startIdx (hyst_state 50) = 0 \<and> endIdx (hyst_state 50) = 7 \<and>
   listLength stale_state = 5 \<and> startIdx stale_state = 0 \<and> endIdx stale_state = 7 \<and>
   length (vlist stale_state) = 7 \<and>
   length (take (endIdx stale_state - startIdx stale_state)
             (drop (startIdx stale_state) (list hyst_props5))) = 5 \<and>
   emitted stale_state = emitted (hyst_state 50) \<and>
   endIdx (redraw hyst_props5 (scen_env 60) stale_state) = 7 \<and>
   length (vlist (redraw hyst_props5 (scen_env 60) stale_state)) = 7"
  by code_simp

text \<open>The branch taken: the cached \<^verbatim>\<open>endTop\<close> 140 lies in the band \<open>[110, 150]\<close> around the
  bottom offset 90, and \<^verbatim>\<open>getEndIdx\<close> answers 7.\<close>

theorem shrink_keeps_stale_window_witness:
  "endTop (hyst_state 50) = Num 140 \<and>
   bottomOffset hyst_props5 (scen_env 50) (redraw_sync hyst_props5 (hyst_state 50)) = Num 90 \<and>
   getEndIdx hyst_props5 (redraw_sync hyst_props5 (hyst_state 50)) (Num 90) (Num 40) = 7 \<and>
   listLength stale_state = 5 \<and> endIdx stale_state = 7"
proof -
  have a: "endTop (hyst_state 50) = Num 140"
    by code_simp
  have b: "bottomOffset hyst_props5 (scen_env 50) (redraw_sync hyst_props5 (hyst_state 50))
             = Num 90"
    by code_simp
  have c: "getEndIdx hyst_props5 (redraw_sync hyst_props5 (hyst_state 50)) (Num 90) (Num 40) = 7"
    by code_simp
  show ?thesis
    using a b c shrink_keeps_stale_window by simp
qed

text \<open>
  When the start then moves (\<^verbatim>\<open>scrollTop = 70\<close>) while the end is still kept, the window
  \<open>[1, 7)\<close> is published for a list of 5 rows and \<^verbatim>\<open>endTop\<close> becomes \<^verbatim>\<open>getRowTop(7)\<close>, which
  reads past the array and is \<^verbatim>\<open>NaN\<close>. Both comparisons of \<^verbatim>\<open>getEndIdx\<close> are then false at
  every later redraw, and the end is never computed again.
\<close>

lemma stale_end_frozen:
  "startIdx (redraw hyst_props5 (scen_env 70) stale_state) = 1 \<and>
   endIdx (redraw hyst_props5 (scen_env 70) stale_state) = 7 \<and>
   endTop (redraw hyst_props5 (scen_env 70) stale_state) = NaN \<and>
   emitted (redraw hyst_props5 (scen_env 70) stale_state) = [(0, 7), (1, 7)]"
  by code_simp

lemma getEndIdx_NaN_kept: "endTop st = NaN \<Longrightarrow> getEndIdx P st b p = endIdx st"
  by (simp add: getEndIdx_def Let_def)

text \<open>
  What does hold after every redraw: \<open>startIdx \<le> endIdx\<close>, two array entries per row, and
  \<open>endIdx \<le> N\<close> when the window before the redraw did not reach beyond the new length.
\<close>

lemma redraw_window_range:
  assumes "length (rowInfo st) = 2 * listLength st"
  shows "startIdx (redraw P E st) \<le> endIdx (redraw P E st) \<and>
         length (rowInfo (redraw P E st)) = 2 * listLength (redraw P E st) \<and>
         (startIdx st \<le> length (list P) \<and> endIdx st \<le> length (list P)
            \<longrightarrow> endIdx (redraw P E st) \<le> listLength (redraw P E st))"
proof -
  let ?s3 = "redraw_sync P st"
  have len: "length (rowInfo ?s3) = 2 * listLength ?s3"
    using assms by (simp add: redraw_sync_length)
  have sw: "startIdx ?s3 = startIdx st" "endIdx ?s3 = endIdx st"
    using redraw_sync_same_window [of st P] by (simp_all add: same_window_def)
  have "endIdx (redraw P E st) \<le> length (list P)"
    if "startIdx st \<le> length (list P)" "endIdx st \<le> length (list P)"
  proof -
    have "newStartIdx P E ?s3 \<le> length (list P)"
      using getStartIdx_le [OF len, of P] that sw by (simp add: newStartIdx_def)
    moreover have "getEndIdx P ?s3 b p \<le> length (list P)" for b p
      using getEndIdx_le [of ?s3 P] that sw by simp
    ultimately have "newEndIdx P E ?s3 \<le> length (list P)"
      by (simp add: newEndIdx_def)
    then show ?thesis
      using that sw by (simp add: redraw_def Let_def)
  qed
  then show ?thesis
    using len by (simp add: redraw_ordered redraw_rowInfo)
qed


section \<open>Hysteresis\<close>

lemma redraw_in_band:
  assumes tops: "startTop st = Num a" "endTop st = Num c"
      and pad: "padding2 P E (redraw_sync P st) = Num p"
      and top: "topOffset P E = Num t"
      and bot: "bottomOffset P E (redraw_sync P st) = Num b"
      and sband: "t - p * (1 + hysteresis P) \<le> a" "a \<le> t - p * (1 - hysteresis P)"
      and eband: "b + p * (1 - hysteresis P) \<le> c" "c \<le> b + p * (1 + hysteresis P)"
      and ord: "startIdx st \<le> endIdx st"
    shows "redraw P E st = redraw_sync P st"
proof -
  have sw: "same_window st (redraw_sync P st)"
    by (rule redraw_sync_same_window)
  have s: "newStartIdx P E (redraw_sync P st) = startIdx (redraw_sync P st)"
    using sw tops sband by (simp add: newStartIdx_def getStartIdx_def pad top same_window_def)
  have e: "getEndIdx P (redraw_sync P st) (bottomOffset P E (redraw_sync P st))
             (padding2 P E (redraw_sync P st)) = endIdx (redraw_sync P st)"
    using sw tops eband by (simp add: getEndIdx_def pad bot same_window_def)
  have e': "newEndIdx P E (redraw_sync P st) = endIdx (redraw_sync P st)"
    using sw ord by (simp add: newEndIdx_def s e same_window_def)
  show ?thesis
    by (simp add: redraw_def s e')
qed

text \<open>
  C4 (hysteresis suppression), as stated, fails: the band is laid around the cached top
  of the boundary row, which lies up to a row height away from the padded offset. With
  rows of height 20, padding 40 and hysteresis 0.5, the redraw at \<^verbatim>\<open>scrollTop = 115\<close>
  starts the window at row 3 (top 60); after a scroll of 10, less than
  \<^verbatim>\<open>padding * hysteresis = 20\<close>, the band is \<open>[65, 105]\<close>, the start is recomputed to row
  4 and a new window is published.
\<close>

theorem small_scroll_moves_window_counterexample:
  "startIdx (hyst_state 115) = 3 \<and> endIdx (hyst_state 115) = 10 \<and>
   \<bar>125 - 115\<bar> < (40 :: real) * 0.5 \<and>
   startIdx (redraw hyst_props (scen_env 125) (hyst_state 115)) = 4 \<and>
   emitted (hyst_state 115) = [(3, 10)] \<and>
   emitted (redraw hyst_props (scen_env 125) (hyst_state 115)) = [(3, 10), (4, 10)]"
  by code_simp

text \<open>
  C4 as amended: what suppresses a redraw is the position of the two cached tops. For a
  window with \<open>startIdx \<le> endIdx\<close>, if at the next redraw the cached \<^verbatim>\<open>startTop\<close> lies in
  \<open>[topOffset - padding (1 + hysteresis), topOffset - padding (1 - hysteresis)]\<close> and the
  cached \<^verbatim>\<open>endTop\<close> lies in
  \<open>[bottomOffset + padding (1 - hysteresis), bottomOffset + padding (1 + hysteresis)]\<close>,
  then the redraw keeps both indices and both tops, publishes no new slice or style and
  emits no \<^verbatim>\<open>updateHeight\<close>.
\<close>

theorem hysteresis_band_keeps_window:
  assumes "startTop st = Num a" and "endTop st = Num c"
      and "padding2 P E (redraw_sync P st) = Num p"
      and "topOffset P E = Num t"
      and "bottomOffset P E (redraw_sync P st) = Num b"
      and "t - p * (1 + hysteresis P) \<le> a" and "a \<le> t - p * (1 - hysteresis P)"
      and "b + p * (1 - hysteresis P) \<le> c" and "c \<le> b + p * (1 + hysteresis P)"
      and "startIdx st \<le> endIdx st"
    shows "startIdx (redraw P E st) = startIdx st \<and> endIdx (redraw P E st) = endIdx st \<and>
           startTop (redraw P E st) = startTop st \<and> endTop (redraw P E st) = endTop st \<and>
           vlist (redraw P E st) = vlist st \<and> sheetStyle (redraw P E st) = sheetStyle st \<and>
           emitted (redraw P E st) = emitted st"
  using redraw_in_band [OF assms] redraw_sync_same_window [of st P]
  by (simp add: same_window_def)

text \<open>The window \<open>[3, 10)\<close> of the redraw at \<^verbatim>\<open>scrollTop = 100\<close> (tops 60 and 200) and a
  redraw at \<^verbatim>\<open>scrollTop = 110\<close>: the bands are \<open>[50, 90]\<close> and \<open>[170, 210]\<close>.\<close>

theorem hysteresis_band_keeps_window_witness:
  "startTop (hyst_state 100) = Num 60 \<and> endTop (hyst_state 100) = Num 200 \<and>
   padding2 hyst_props (scen_env 110) (redraw_sync hyst_props (hyst_state 100)) = Num 40 \<and>
   topOffset hyst_props (scen_env 110) = Num 110 \<and>
   bottomOffset hyst_props (scen_env 110) (redraw_sync hyst_props (hyst_state 100)) = Num 150 \<and>
   hysteresis hyst_props = 0.5 \<and>
   startIdx (hyst_state 100) = 3 \<and> endIdx (hyst_state 100) = 10 \<and>
   startIdx (redraw hyst_props (scen_env 110) (hyst_state 100)) = 3 \<and>
   endIdx (redraw hyst_props (scen_env 110) (hyst_state 100)) = 10 \<and>
   emitted (redraw hyst_props (scen_env 110) (hyst_state 100)) = emitted (hyst_state 100)"
proof -
  have a: "startTop (hyst_state 100) = Num 60"
    by code_simp
  have c: "endTop (hyst_state 100) = Num 200"
    by code_simp
  have p: "padding2 hyst_props (scen_env 110) (redraw_sync hyst_props (hyst_state 100)) = Num 40"
    by code_simp
  have t: "topOffset hyst_props (scen_env 110) = Num 110"
    by code_simp
  have b: "bottomOffset hyst_props (scen_env 110) (redraw_sync hyst_props (hyst_state 100))
             = Num 150"
    by code_simp
  have y: "hysteresis hyst_props = 0.5"
    by (simp add: hyst_props_def)
  have s: "startIdx (hyst_state 100) = 3"
    by code_simp
  have e: "endIdx (hyst_state 100) = 10"
    by code_simp
  have "startIdx (hyst_state 100) \<le> endIdx (hyst_state 100)"
    by (simp add: s e)
  from hysteresis_band_keeps_window [OF a c p t b _ _ _ _ this]
  show ?thesis
    using a c p t b y s e by simp
qed

section \<open>Growing and shrinking back\<close>

lemma update1_same_height:
  "aget (rowInfo s) (i * 2) = Num (newHeight P i) \<Longrightarrow> update1 P s i = s"
  by (simp add: update1_def)

lemma fold_update1_same_height:
  "\<forall>i\<in>set xs. aget (rowInfo s) (i * 2) = Num (newHeight P i) \<Longrightarrow>
   fold (\<lambda>ri s. update1 P s ri) xs s = s"
  by (induction xs) (simp_all add: update1_same_height)

lemma take_aadd:
  "n \<le> j \<Longrightarrow> j < length a \<Longrightarrow> take n (aadd a j d) = take n a"
  by (simp add: aadd_def aset_def)

lemma update1_loop_take:
  "length info = 2 * len \<Longrightarrow> n \<le> ri \<Longrightarrow>
   take (2 * n) (update1_loop info len diff bt ri) = take (2 * n) info"
proof (induction info len diff bt ri rule: update1_loop.induct)
  case (1 info len diff bt ri)
  show ?case
  proof (cases "0 < bt \<and> bt < len")
    case False
    then show ?thesis by (simp add: update1_loop_stop)
  next
    case True
    note run = this
    show ?thesis
    proof (cases "ri AND bt = 0")
      case False
      then show ?thesis
        using run "1.IH"(2) [OF run False "1.prems"] by (simp add: update1_loop_skip)
    next
      case True
      note clear = this
      show ?thesis
      proof (cases "ri + bt \<ge> len")
        case True
        then show ?thesis
          using run clear by (simp add: update1_loop_exit)
      next
        case False
        have a: "length (aadd info ((ri + bt) * 2 + 1) diff) = 2 * len"
          using "1.prems" False by simp
        have b: "take (2 * n) (aadd info ((ri + bt) * 2 + 1) diff) = take (2 * n) info"
          using "1.prems" False by (intro take_aadd) simp_all
        have "n \<le> ri + bt"
          using "1.prems" by simp
        then show ?thesis
          using run clear False "1.IH"(1) [OF run clear False a] b
          by (simp add: update1_loop_step)
      qed
    qed
  qed
qed

lemma update1_take:
  assumes "length (rowInfo s) = 2 * listLength s" and "i < listLength s" and "n \<le> i"
  shows "take (2 * n) (rowInfo (update1 P s i)) = take (2 * n) (rowInfo s)"
proof -
  let ?d = "js_sub (Num (newHeight P i)) (aget (rowInfo s) (i * 2))"
  let ?a = "aadd (aadd (rowInfo s) (i * 2) ?d) (i * 2 + 1) ?d"
  have "length ?a = 2 * listLength s"
    using assms(1,2) by simp
  then have "take (2 * n) (update1_loop ?a (listLength s) ?d 1 i) = take (2 * n) ?a"
    using assms(3) by (rule update1_loop_take)
  moreover have "take (2 * n) ?a = take (2 * n) (rowInfo s)"
    using assms by (simp add: take_aadd)
  ultimately show ?thesis
    by (simp add: update1_def Let_def)
qed

lemma update1_keeps_prefix:
  assumes k: "keeps_prefix info0 n m s" and n: "length info0 = 2 * n"
      and i: "i < m" and same: "i < n \<longrightarrow> aget info0 (i * 2) = Num (newHeight P i)"
  shows "keeps_prefix info0 n m (update1 P s i)"
proof (cases "i < n")
  case True
  then have lt: "i * 2 < 2 * n" "i * 2 < 2 * m"
    using i by simp_all
  have "info0 ! (i * 2) = rowInfo s ! (i * 2)"
    using k lt(1) nth_take [of "i * 2" "2 * n" "rowInfo s"] by (simp add: keeps_prefix_def)
  then have "aget (rowInfo s) (i * 2) = aget info0 (i * 2)"
    using k n lt by (simp add: aget_def keeps_prefix_def)
  then have "update1 P s i = s"
    using same True by (simp add: update1_same_height)
  then show ?thesis using k by simp
next
  case False
  then show ?thesis
    using k i update1_take [of s i n P] update1_length [of s i P]
    by (simp add: keeps_prefix_def)
qed

lemma fold_update1_keeps_prefix:
  "keeps_prefix info0 n m s \<Longrightarrow> length info0 = 2 * n \<Longrightarrow>
   \<forall>i\<in>set xs. i < m \<and> (i < n \<longrightarrow> aget info0 (i * 2) = Num (newHeight P i)) \<Longrightarrow>
   keeps_prefix info0 n m (fold (\<lambda>ri s. update1 P s ri) xs s)"
proof (induction xs arbitrary: s)
  case Nil
  then show ?case by simp
next
  case (Cons x xs)
  have "keeps_prefix info0 n m (update1 P s x)"
    using Cons.prems by (intro update1_keeps_prefix) simp_all
  then show ?case
    using Cons.IH [of "update1 P s x"] Cons.prems by simp
qed

lemma updateRange_keeps_prefix:
  assumes "keeps_prefix info0 n m s" and "length info0 = 2 * n"
      and "\<forall>i\<in>{a..<min b n}. aget info0 (i * 2) = Num (newHeight P i)"
  shows "keeps_prefix info0 n m (updateRange P s a b)"
proof -
  have m: "listLength s = m"
    using assms(1) by (simp add: keeps_prefix_def)
  show ?thesis
    unfolding updateRange_def
    using assms m by (intro fold_update1_keeps_prefix) auto
qed


lemma update_resized_same_window: "same_window st (update_resized P st)"
proof -
  have a: "same_window st (st\<lparr>rowInfo := r, listLength := n\<rparr>)" for r n
    by (simp add: same_window_def)
  show ?thesis
    unfolding update_resized_def
    by (auto intro: updateAll_same_window a same_window_refl
          same_window_trans [OF a updateRange_same_window])
qed

lemma update_unfold:
  "update P st = updateRange P (update_resized P st) (startIdx st) (endIdx st)"
  using update_resized_same_window [of st P]
  by (simp add: update_def update_resized_def Let_def same_window_def)

lemma update_resized_keeps_prefix:
  assumes len: "length (rowInfo st) = 2 * listLength st"
      and grow: "listLength st \<le> length (list P)"
  shows "keeps_prefix (rowInfo st) (listLength st) (length (list P)) (update_resized P st)"
proof -
  let ?n = "listLength st" and ?m = "length (list P)"
  let ?g = "st\<lparr>rowInfo := rowInfo st @ replicate ((?m - ?n) * 2) (Num 0), listLength := ?m\<rparr>"
  consider "?n = 0" | "?n \<noteq> 0" "?n < ?m" | "?n \<noteq> 0" "?n = ?m"
    using grow by linarith
  then show ?thesis
  proof cases
    case 1
    then show ?thesis
      using len by (simp add: update_resized_def keeps_prefix_def updateAll_length)
  next
    case 2
    have g: "keeps_prefix (rowInfo st) ?n ?m ?g"
      using len 2 by (simp add: keeps_prefix_def)
    have "keeps_prefix (rowInfo st) ?n ?m (updateRange P ?g ?n ?m)"
      using g len by (rule updateRange_keeps_prefix) simp
    then show ?thesis
      using 2 by (simp add: update_resized_def)
  next
    case 3
    then show ?thesis
      using len by (simp add: update_resized_def keeps_prefix_def)
  qed
qed

lemma update_grow_keeps_prefix:
  assumes len: "length (rowInfo st) = 2 * listLength st"
      and grow: "listLength st \<le> length (list P)"
      and same: "\<forall>i\<in>{startIdx st..<min (endIdx st) (listLength st)}.
                   aget (rowInfo st) (i * 2) = Num (newHeight P i)"
  shows "keeps_prefix (rowInfo st) (listLength st) (length (list P)) (update P st)"
  unfolding update_unfold
  using update_resized_keeps_prefix [OF len grow] len same
  by (rule updateRange_keeps_prefix)

lemma update_shrink_back:
  assumes k: "keeps_prefix info0 n m s" and n: "length info0 = 2 * n"
      and P: "length (list P) = n"
      and same: "\<forall>i\<in>{startIdx s..<min (endIdx s) n}. aget info0 (i * 2) = Num (newHeight P i)"
  shows "rowInfo (update P s) = info0 \<and> listLength (update P s) = n"
proof -
  have m: "listLength s = m" "length (rowInfo s) = 2 * m" "take (2 * n) (rowInfo s) = info0"
    using k by (simp_all add: keeps_prefix_def)
  have "length (take (2 * n) (rowInfo s)) = 2 * n"
    using m(3) n by simp
  then have nm: "n \<le> m"
    using m(2) by simp
  have r: "rowInfo (update_resized P s) = info0"
  proof (cases "m = 0")
    case True
    then show ?thesis
      using nm m n P by (simp add: update_resized_def updateAll_def)
  next
    case False
    show ?thesis
    proof (cases "n < m")
      case True
      then show ?thesis
        using False m P by (simp add: update_resized_def mult.commute)
    next
      case False
      then have "n = m" using nm by simp
      then show ?thesis
        using m P \<open>m \<noteq> 0\<close> by (simp add: update_resized_def)
    qed
  qed
  have l: "listLength (update_resized P s) = n"
    using update_listLength [of P s] P by (simp add: update_unfold)
  have "fold (\<lambda>ri s. update1 P s ri)
          [startIdx s..<(if endIdx s > n then n else endIdx s)] (update_resized P s)
        = update_resized P s"
    using same r by (intro fold_update1_same_height) auto
  then have "update P s = update_resized P s"
    by (auto simp: update_unfold updateRange_def l)
  then show ?thesis
    using r l by simp
qed

text \<open>
  C8 (resize round-trip), as stated, fails: \<^verbatim>\<open>update\<close> ends with
  \<^verbatim>\<open>updateRange(startIdx, endIdx)\<close>, which reads the heights of the rows of the window from
  the list it is given. With the window \<open>[0, 1)\<close> over one row of height 50, growing to a
  two-row list whose row 0 has height 70 and shrinking back to a one-row list (row 0 still
  70) leaves \<^verbatim>\<open>getRowTop(1)\<close> at 70.
\<close>

theorem resize_round_trip_counterexample:
  "getRowTop round_state 1 = Num 50 \<and>
   listLength round_state = 1 \<and> length (list round_props2) = 2 \<and>
   length (list round_props1) = 1 \<and>
   getRowTop (update round_props1 (update round_props2 round_state)) 1 = Num 70"
  by code_simp

text \<open>
  C8 as amended: starting from an index of length \<open>N\<close> (two entries per row), growing it to
  any length \<open>M \<ge> N\<close> by \<^verbatim>\<open>update\<close> with a longer list and shrinking it back by \<^verbatim>\<open>update\<close>
  with a list of length \<open>N\<close> restores \<^verbatim>\<open>rowInfo\<close>, and so \<^verbatim>\<open>getRowTop(k)\<close> for every
  \<open>k \<le> N\<close>, provided the rows of the current window below \<open>N\<close> have in both lists the
  height that the index already stores for them.
\<close>

theorem resize_round_trip:
  assumes len: "length (rowInfo st) = 2 * listLength st"
      and grow: "listLength st \<le> length (list P1)"
      and shrink: "length (list P2) = listLength st"
      and same: "\<forall>i\<in>{startIdx st..<min (endIdx st) (listLength st)}.
                   aget (rowInfo st) (i * 2) = Num (newHeight P1 i) \<and>
                   aget (rowInfo st) (i * 2) = Num (newHeight P2 i)"
  shows "rowInfo (update P2 (update P1 st)) = rowInfo st \<and>
         listLength (update P2 (update P1 st)) = listLength st \<and>
         (\<forall>k\<le>listLength st. getRowTop (update P2 (update P1 st)) k = getRowTop st k)"
proof -
  have sw: "startIdx (update P1 st) = startIdx st" "endIdx (update P1 st) = endIdx st"
    using update_same_window [of st P1] by (simp_all add: same_window_def)
  have k: "keeps_prefix (rowInfo st) (listLength st) (length (list P1)) (update P1 st)"
    using same by (intro update_grow_keeps_prefix [OF len grow]) blast
  have same2: "\<forall>i\<in>{startIdx (update P1 st)..<min (endIdx (update P1 st)) (listLength st)}.
                 aget (rowInfo st) (i * 2) = Num (newHeight P2 i)"
    using same unfolding sw by blast
  have "rowInfo (update P2 (update P1 st)) = rowInfo st \<and>
        listLength (update P2 (update P1 st)) = listLength st"
    using k len shrink same2 by (rule update_shrink_back)
  then show ?thesis
    by (simp add: getRowTop_def)
qed

theorem resize_round_trip_witness:
  "length (rowInfo scen_state) = 2 * listLength scen_state \<and>
   listLength scen_state = 5 \<and> length (list scen_props8) = 8 \<and>
   length (list scen_props) = 5 \<and> startIdx scen_state = 0 \<and> endIdx scen_state = 3 \<and>
   rowInfo (update scen_props (update scen_props8 scen_state)) = rowInfo scen_state \<and>
   getRowTop (update scen_props (update scen_props8 scen_state)) 5 = getRowTop scen_state 5"
proof -
  have len: "length (rowInfo scen_state) = 2 * listLength scen_state"
    by code_simp
  have n: "listLength scen_state = 5" "length (list scen_props8) = 8"
      "length (list scen_props) = 5" "startIdx scen_state = 0" "endIdx scen_state = 3"
    by code_simp+
  have grow: "listLength scen_state \<le> length (list scen_props8)"
    by (simp add: n)
  have shrink: "length (list scen_props) = listLength scen_state"
    by (simp add: n)
  have same: "\<forall>i\<in>{startIdx scen_state..<min (endIdx scen_state) (listLength scen_state)}.
                 aget (rowInfo scen_state) (i * 2) = Num (newHeight scen_props8 i) \<and>
                 aget (rowInfo scen_state) (i * 2) = Num (newHeight scen_props i)"
    by code_simp
  show ?thesis
    using resize_round_trip [OF len grow shrink same] len n by simp
qed


section \<open>Block sizes\<close>

text \<open>\<^verbatim>\<open>((ri ^ ri+1) + 1) / 2\<close> is the largest power of two that divides \<open>ri + 1\<close>.\<close>

lemma blockSize_even: "blockSize (2 * m) = 1"
proof -
  have "(2 * m) XOR (2 * m + 1) = 1"
    by (subst xor_nat_rec) simp
  then show ?thesis
    by (simp add: blockSize_def)
qed

lemma blockSize_odd: "blockSize (2 * m + 1) = 2 * blockSize m"
proof -
  have "(2 * m + 1) XOR (2 * m + 1 + 1) = 1 + 2 * (m XOR (m + 1))"
    by (subst xor_nat_rec) simp
  moreover have "odd (m XOR (m + 1))"
    by (simp add: even_xor_iff)
  ultimately show ?thesis
    unfolding blockSize_def by (elim oddE) simp
qed

lemma blockSize_pow2_odd: "blockSize (2 ^ k * (2 * c + 1) - 1) = 2 ^ k"
proof (induction k)
  case 0
  show ?case using blockSize_even [of c] by simp
next
  case (Suc k)
  obtain n where n: "2 ^ k * (2 * c + 1) = Suc n"
    using gr0_implies_Suc [of "2 ^ k * (2 * c + 1)"] by auto
  have "2 ^ Suc k * (2 * c + 1) = 2 * (2 ^ k * (2 * c + 1))"
    by simp
  then have "2 ^ Suc k * (2 * c + 1) - 1 = 2 * (2 ^ k * (2 * c + 1) - 1) + (1::nat)"
    unfolding n by simp
  then show ?case
    using Suc blockSize_odd [of "2 ^ k * (2 * c + 1) - 1"] by simp
qed

lemma pow2_odd_decomp: "0 < n \<Longrightarrow> \<exists>k c. n = 2 ^ k * (2 * c + 1)" for n :: nat
proof (induction n rule: less_induct)
  case (less n)
  show ?case
  proof (cases "even n")
    case False
    then obtain c where "n = 2 * c + 1" by (elim oddE)
    then have "n = 2 ^ 0 * (2 * c + 1)" by simp
    then show ?thesis by blast
  next
    case True
    then obtain m where m: "n = 2 * m" by (elim evenE)
    with less.prems have "0 < m" "m < n" by simp_all
    then obtain k c where "m = 2 ^ k * (2 * c + 1)"
      using less.IH by blast
    then have "n = 2 ^ Suc k * (2 * c + 1)"
      using m by simp
    then show ?thesis by blast
  qed
qed

lemma blockSize_cases:
  obtains k c where "ri + 1 = 2 ^ k * (2 * c + 1)" and "blockSize ri = 2 ^ k"
proof -
  obtain k c where kc: "ri + 1 = 2 ^ k * (2 * c + 1)"
    using pow2_odd_decomp [of "ri + 1"] by auto
  then have "ri = 2 ^ k * (2 * c + 1) - 1" by simp
  then have "blockSize ri = 2 ^ k"
    using blockSize_pow2_odd [of k c] by simp
  with kc show ?thesis by (rule that)
qed

lemma blockSize_dvd: "blockSize ri dvd ri + 1"
  by (rule blockSize_cases [of ri]) simp

lemma blockSize_pos: "0 < blockSize ri"
  by (rule blockSize_cases [of ri]) simp

lemma blockSize_le: "blockSize ri \<le> ri + 1"
  using blockSize_dvd [of ri] by (simp add: dvd_imp_le)

lemma pow2_dvd_pow2_odd:
  assumes "(2::nat) ^ j dvd 2 ^ k * (2 * c + 1)"
  shows "j \<le> k"
proof (rule ccontr)
  assume "\<not> j \<le> k"
  then have "Suc k \<le> j" by simp
  then have "(2::nat) ^ Suc k dvd 2 ^ j"
    by (rule le_imp_power_dvd)
  then have "(2::nat) ^ Suc k dvd 2 ^ k * (2 * c + 1)"
    using assms by (rule dvd_trans)
  then have "(2::nat) ^ k * 2 dvd 2 ^ k * (2 * c + 1)"
    by (simp add: mult.commute)
  then have "(2::nat) dvd 2 * c + 1"
    unfolding nat_mult_dvd_cancel_disj by simp
  then show False by presburger
qed

lemma blockSize_greatest: "2 ^ j dvd ri + 1 \<Longrightarrow> 2 ^ j dvd blockSize ri"
proof (rule blockSize_cases [of ri])
  fix k c
  assume d: "2 ^ j dvd ri + 1" and e: "ri + 1 = 2 ^ k * (2 * c + 1)" and b: "blockSize ri = 2 ^ k"
  have "j \<le> k"
    using d e pow2_dvd_pow2_odd [of j k c] by simp
  then show ?thesis
    by (simp add: b le_imp_power_dvd)
qed

lemma and_pow2_iff: "ri AND 2 ^ k = 0 \<longleftrightarrow> even (ri div 2 ^ k)" for ri :: nat
  by (simp add: and_exp_eq_0_iff_not_bit bit_iff_odd)


section \<open>Prefix sums of a well-formed index\<close>

text \<open>
  In this section and the next two, the lemmas on the loops are statements about sums of
  real numbers. The lemmas on the operations themselves (\<open>getRowTop_ok\<close>, \<open>getRowIdx_ok\<close>
  and those derived from it, \<open>update1_ok\<close>, \<open>updateAll_ok\<close>, \<open>updateRange_ok\<close>, \<open>update_ok\<close>)
  are stated for whole heights with a whole total, where every sum and difference that the
  program forms is a whole number up to \<open>2^53\<close> and the doubles compute it exactly.
\<close>

lemma prefixSum_0 [simp]: "prefixSum h 0 = 0"
  by (simp add: prefixSum_def)

lemma prefixSum_Suc: "prefixSum h (Suc k) = prefixSum h k + h k"
  by (simp add: prefixSum_def)

lemma prefixSum_diff:
  "a \<le> b \<Longrightarrow> (\<Sum>j = a..<b. h j) = prefixSum h b - prefixSum h a"
  using sum.atLeastLessThan_concat [of 0 a b h]
  by (simp add: prefixSum_def atLeast0LessThan)

lemma pow2_dvd_even_div:
  fixes ri :: nat
  assumes "2 ^ k dvd ri" and "even (ri div 2 ^ k)"
  shows "2 ^ Suc k dvd ri"
proof -
  obtain q where q: "ri = 2 ^ k * q" using assms(1) by (elim dvdE)
  then have "even q" using assms(2) by simp
  then obtain c where "q = 2 * c" by (elim evenE)
  then show ?thesis using q by simp
qed

lemma pow2_dvd_odd_div:
  fixes ri :: nat
  assumes "2 ^ k dvd ri" and "odd (ri div 2 ^ k)"
  obtains c where "ri = 2 ^ k * (2 * c + 1)"
proof -
  obtain q where q: "ri = 2 ^ k * q" using assms(1) by (elim dvdE)
  then have "odd q" using assms(2) by simp
  then obtain c where "q = 2 * c + 1" by (elim oddE)
  then show ?thesis using q that by simp
qed

text \<open>The entry that closes the block of size \<open>2 ^ k\<close> starting at a multiple of \<open>2 ^ (k + 1)\<close>.\<close>

lemma block_entry:
  assumes ok: "rowInfo_ok info len h"
      and c: "ri = 2 ^ Suc k * c"
      and le: "ri + 2 ^ k \<le> len"
  shows "aget info ((ri + 2 ^ k) * 2 - 1) = Num (prefixSum h (ri + 2 ^ k) - prefixSum h ri)"
proof -
  let ?m = "ri + 2 ^ k - 1"
  obtain n where n: "(2::nat) ^ k = Suc n"
    using gr0_implies_Suc [of "(2::nat) ^ k"] by auto
  have m: "?m < len" "(ri + 2 ^ k) * 2 - 1 = ?m * 2 + 1" "?m + 1 = ri + 2 ^ k"
    using le unfolding n by simp_all
  have "ri + 2 ^ k = 2 ^ k * (2 * c + 1)"
    using c by (simp add: algebra_simps)
  then have "?m = 2 ^ k * (2 * c + 1) - 1"
    by simp
  then have bs: "blockSize ?m = 2 ^ k"
    using blockSize_pow2_odd [of k c] by simp
  have "blockSum h ?m = (\<Sum>j = ri ..< ri + 2 ^ k. h j)"
    unfolding blockSum_def bs m(3) by simp
  also have "\<dots> = prefixSum h (ri + 2 ^ k) - prefixSum h ri"
    by (rule prefixSum_diff) simp
  finally have "blockSum h ?m = prefixSum h (ri + 2 ^ k) - prefixSum h ri" .
  moreover have "aget info (?m * 2 + 1) = Num (blockSum h ?m)"
    using ok m(1) by (simp add: rowInfo_ok_def aget_def)
  ultimately show ?thesis
    by (simp only: m(2))
qed

lemma getRowTop_loop_ok:
  "sm = Num s \<Longrightarrow> \<exists>k. bt = 2 ^ k \<and> 2 ^ k dvd ri \<Longrightarrow> ri \<le> upTo \<Longrightarrow> upTo \<le> len \<Longrightarrow>
   rowInfo_ok info len h \<Longrightarrow>
   getRowTop_loop info upTo bt sm ri = Num (s + prefixSum h ri)"
proof (induction info upTo bt sm ri arbitrary: s rule: getRowTop_loop.induct)
  case (1 info upTo bt sm ri)
  note ok = "1.prems"(5)
  obtain k where k: "bt = 2 ^ k" "2 ^ k dvd ri"
    using "1.prems"(2) by blast
  show ?case
  proof (cases "0 < bt \<and> bt \<le> upTo")
    case False
    then have "ri < 2 ^ k"
      using k "1.prems"(3) by simp
    then have "ri = 0"
      using k(2) by (auto dest: dvd_imp_le)
    then show ?thesis
      using False "1.prems"(1) by (simp add: getRowTop_loop_stop)
  next
    case True
    note c1 = this
    then have run: "0 < bt" "bt \<le> upTo" by simp_all
    show ?thesis
    proof (cases "ri AND bt = 0")
      case True
      then have "even (ri div 2 ^ k)"
        using k by (simp add: and_pow2_iff)
      then have "2 ^ Suc k dvd ri"
        by (rule pow2_dvd_even_div [OF k(2)])
      then have "\<exists>j. bt * 2 = 2 ^ j \<and> 2 ^ j dvd ri"
        using k(1) by (intro exI [of _ "Suc k"]) simp
      moreover have "\<not> ri AND bt \<noteq> 0"
        using True by simp
      ultimately have "getRowTop_loop info upTo (bt * 2) sm ri = Num (s + prefixSum h ri)"
        using "1.IH"(2) [OF c1 _ "1.prems"(1) _ "1.prems"(3,4) ok] by blast
      then show ?thesis
        using run True by (simp add: getRowTop_loop_skip)
    next
      case False
      then have "odd (ri div 2 ^ k)"
        using k by (simp add: and_pow2_iff)
      then obtain c where c: "ri = 2 ^ k * (2 * c + 1)"
        using pow2_dvd_odd_div [OF k(2)] by blast
      have r': "ri - bt = 2 ^ Suc k * c" "ri - bt + 2 ^ k = ri"
        using c k(1) by (simp_all add: algebra_simps)
      have "ri - bt + 2 ^ k \<le> len"
        using r'(2) "1.prems"(3,4) by simp
      then have "aget info ((ri - bt + 2 ^ k) * 2 - 1)
              = Num (prefixSum h (ri - bt + 2 ^ k) - prefixSum h (ri - bt))"
        by (rule block_entry [OF ok r'(1)])
      then have e: "js_add sm (aget info (ri * 2 - 1))
                      = Num (s + prefixSum h ri - prefixSum h (ri - bt))"
        using "1.prems"(1) by (simp add: r'(2))
      have "\<exists>j. bt * 2 = 2 ^ j \<and> 2 ^ j dvd ri - bt"
        using k(1) r'(1) by (intro exI [of _ "Suc k"]) simp
      moreover have "ri - bt \<le> upTo"
        using "1.prems"(3) by simp
      ultimately have "getRowTop_loop info upTo (bt * 2) (js_add sm (aget info (ri * 2 - 1))) (ri - bt)
            = Num (s + prefixSum h ri - prefixSum h (ri - bt) + prefixSum h (ri - bt))"
        using "1.IH"(1) [OF c1 False e _ _ "1.prems"(4) ok] by blast
      then show ?thesis
        using run False by (simp add: getRowTop_loop_take)
    qed
  qed
qed

text \<open>On an index with the documented structure for whole heights, \<^verbatim>\<open>getRowTop(k)\<close> is the
  sum of the first \<open>k\<close> heights.\<close>

lemma getRowTop_ok:
  assumes ok: "rowInfo_ok (rowInfo st) (listLength st) h"
      and wh: "whole_heights h (listLength st)"
      and k: "k \<le> listLength st"
  shows "getRowTop st k = Num (prefixSum h k)"
proof -
  have "\<exists>j. (1::nat) = 2 ^ j \<and> 2 ^ j dvd k"
    by (intro exI [of _ 0]) simp
  then show ?thesis
    using getRowTop_loop_ok [OF refl _ _ _ ok, of 1 k "min k (listLength st)" 0] k
    by (simp add: getRowTop_def min_absorb1)
qed


section \<open>Locating a row in a well-formed index\<close>

lemma bpt_pos: "0 < n \<Longrightarrow> bpt n = 2 ^ (floorlog 2 n - 1) \<and> n < 2 * bpt n"
proof -
  assume n: "0 < n"
  then have "0 < floorlog 2 n"
    by (simp add: floorlog_def)
  then have "(2::nat) * 2 ^ (floorlog 2 n - 1) = 2 ^ floorlog 2 n"
    by (cases "floorlog 2 n") simp_all
  moreover have "n < 2 ^ floorlog 2 n"
    using floorlog_bounds [of n 2] n by simp
  ultimately show ?thesis
    using n by (simp add: bpt_def)
qed

lemma prefixSum_mono:
  assumes "\<forall>i<len. 0 \<le> h i" and "a \<le> b" and "b \<le> len"
  shows "prefixSum h a \<le> prefixSum h b"
proof -
  have "0 \<le> (\<Sum>j = a..<b. h j)"
    using assms by (intro sum_nonneg) simp
  then show ?thesis
    using prefixSum_diff [OF assms(2), of h] by simp
qed

text \<open>
  The descent. \<open>sp\<close> is the width of the range that is still open: twice \<open>bt\<close>, or 1 once
  \<open>bt\<close> has been halved to 0.
\<close>

lemma getRowIdx_loop_ok:
  "rowInfo_ok info len h \<Longrightarrow> rest = Num (x - prefixSum h ri) \<Longrightarrow>
   (bt = 0 \<and> sp = 1) \<or> (\<exists>k. bt = 2 ^ k \<and> sp = 2 ^ Suc k) \<Longrightarrow> sp dvd ri \<Longrightarrow>
   ri \<le> len \<Longrightarrow> prefixSum h ri \<le> x \<Longrightarrow>
   (ri + sp \<le> len \<longrightarrow> x < prefixSum h (ri + sp)) \<Longrightarrow>
   getRowIdx_loop info rest bt ri \<le> len \<and>
   prefixSum h (getRowIdx_loop info rest bt ri) \<le> x \<and>
   (getRowIdx_loop info rest bt ri < len \<longrightarrow> x < prefixSum h (getRowIdx_loop info rest bt ri + 1))"
proof (induction info rest bt ri arbitrary: sp rule: getRowIdx_loop.induct)
  case (1 info rest bt ri)
  note ok = "1.prems"(1) and rest = "1.prems"(2) and shape = "1.prems"(3)
    and dvd = "1.prems"(4) and le = "1.prems"(5) and low = "1.prems"(6) and high = "1.prems"(7)
  show ?case
  proof (cases "bt \<ge> 1")
    case False
    then have "bt = 0" "sp = 1"
      using shape by auto
    then show ?thesis
      using le low high by (simp add: getRowIdx_loop_stop)
  next
    case True
    note run = this
    then obtain k where k: "bt = 2 ^ k" "sp = 2 ^ Suc k"
      using shape by auto
    obtain c where c: "ri = 2 ^ Suc k * c"
      using dvd k(2) by (auto elim: dvdE)
    have shape': "(bt div 2 = 0 \<and> bt = 1) \<or> (\<exists>j. bt div 2 = 2 ^ j \<and> bt = 2 ^ Suc j)"
      using k(1) by (cases k) simp_all
    let ?h = "aget info ((ri + bt) * 2 - 1)"
    have entry: "?h = Num (prefixSum h (ri + bt) - prefixSum h ri)" if "ri + bt \<le> len"
      using block_entry [OF ok c] that k(1) by simp
    have none: "?h = Undefined" if "\<not> ri + bt \<le> len"
    proof -
      have "length info = len * 2"
        using ok by (simp add: rowInfo_ok_def)
      then have "\<not> (ri + bt) * 2 - 1 < length info"
        using that by simp
      then show ?thesis
        by (simp add: aget_def)
    qed
    show ?thesis
    proof (cases "js_ge rest ?h")
      case True
      then have in_range: "ri + bt \<le> len"
        using none rest by (cases "ri + bt \<le> len") auto
      have ge: "prefixSum h (ri + bt) \<le> x"
        using True rest entry [OF in_range] by simp
      have rest': "js_sub rest ?h = Num (x - prefixSum h (ri + bt))"
        using rest entry [OF in_range] by simp
      have dvd': "bt dvd ri + bt"
        using c k(1) by simp
      have high': "ri + bt + bt \<le> len \<longrightarrow> x < prefixSum h (ri + bt + bt)"
        using high k by (simp add: mult_2 add.assoc)
      show ?thesis
        using "1.IH"(1) [OF run refl True ok rest' shape' dvd' in_range ge high']
        by (simp add: getRowIdx_loop_take [OF run True])
    next
      case False
      have dvd': "bt dvd ri"
        using c k(1) by simp
      have high': "ri + bt \<le> len \<longrightarrow> x < prefixSum h (ri + bt)"
        using False rest entry by auto
      show ?thesis
        using "1.IH"(2) [OF run refl False ok rest shape' dvd' le low high']
        by (simp add: getRowIdx_loop_skip [OF run False])
    qed
  qed
qed

lemma whole_heights_nonneg: "whole_heights h len \<Longrightarrow> \<forall>i<len. 0 \<le> h i"
  by (simp add: whole_heights_def whole_def)

lemma getRowIdx_ok:
  assumes ok: "rowInfo_ok (rowInfo st) (listLength st) h"
      and wh: "whole_heights h (listLength st)" and wx: "whole x"
  shows "\<exists>i\<le>listLength st. getRowIdx st (Num x) = int i \<and> prefixSum h i \<le> x \<and>
           (i < listLength st \<longrightarrow> x < prefixSum h (i + 1))"
proof -
  let ?n = "listLength st"
  let ?r = "getRowIdx_loop (rowInfo st) (Num x) (bpt ?n) 0"
  have x: "0 \<le> x"
    using wx by (simp add: whole_def)
  have shape: "(bpt ?n = 0 \<and> (if ?n = 0 then 1 else 2 * bpt ?n) = 1) \<or>
               (\<exists>k. bpt ?n = 2 ^ k \<and> (if ?n = 0 then 1 else 2 * bpt ?n) = 2 ^ Suc k)"
    using bpt_pos [of ?n] by (cases "?n = 0") (auto simp: bpt_def)
  have high: "0 + (if ?n = 0 then 1 else 2 * bpt ?n) \<le> ?n \<longrightarrow>
              x < prefixSum h (0 + (if ?n = 0 then 1 else 2 * bpt ?n))"
    using bpt_pos [of ?n] by (cases "?n = 0") auto
  have "?r \<le> ?n \<and> prefixSum h ?r \<le> x \<and> (?r < ?n \<longrightarrow> x < prefixSum h (?r + 1))"
    using getRowIdx_loop_ok [OF ok _ shape _ _ _ high] x by simp
  moreover have "getRowIdx st (Num x) = int ?r"
    using x by (simp add: getRowIdx_def)
  ultimately show ?thesis
    by blast
qed

lemma getRowIdx_negative: "x < 0 \<Longrightarrow> getRowIdx st (Num x) = - 1"
  by (simp add: getRowIdx_def)

lemma getRowIdx_past_end:
  assumes ok: "rowInfo_ok (rowInfo st) (listLength st) h"
      and wh: "whole_heights h (listLength st)" and wx: "whole x"
      and x: "prefixSum h (listLength st) \<le> x"
  shows "getRowIdx st (Num x) = int (listLength st)"
proof -
  note nonneg = whole_heights_nonneg [OF wh]
  obtain i where i: "i \<le> listLength st" "getRowIdx st (Num x) = int i"
      "i < listLength st \<longrightarrow> x < prefixSum h (i + 1)"
    using getRowIdx_ok [OF ok wh wx] by blast
  have "i = listLength st"
  proof (rule ccontr)
    assume "i \<noteq> listLength st"
    then have lt: "i < listLength st"
      using i(1) by simp
    then have "prefixSum h (i + 1) \<le> prefixSum h (listLength st)"
      using prefixSum_mono [OF nonneg, of "i + 1" "listLength st"] by simp
    then show False
      using i(3) lt x by simp
  qed
  then show ?thesis
    using i(2) by simp
qed

lemma getRowIdx_located:
  assumes ok: "rowInfo_ok (rowInfo st) (listLength st) h"
      and wh: "whole_heights h (listLength st)" and wx: "whole x"
      and x: "x < prefixSum h (listLength st)"
  shows "\<exists>i<listLength st. getRowIdx st (Num x) = int i \<and>
           prefixSum h i \<le> x \<and> x < prefixSum h (i + 1) \<and>
           (\<forall>j<listLength st. prefixSum h j \<le> x \<and> x < prefixSum h (j + 1) \<longrightarrow> j = i)"
proof -
  note nonneg = whole_heights_nonneg [OF wh]
  obtain i where i: "i \<le> listLength st" "getRowIdx st (Num x) = int i" "prefixSum h i \<le> x"
      "i < listLength st \<longrightarrow> x < prefixSum h (i + 1)"
    using getRowIdx_ok [OF ok wh wx] by blast
  have lt: "i < listLength st"
    using i(1,3) x by (cases "i = listLength st") auto
  have "j = i" if j: "j < listLength st" "prefixSum h j \<le> x" "x < prefixSum h (j + 1)" for j
  proof (rule ccontr)
    assume "j \<noteq> i"
    then consider "j + 1 \<le> i" | "i + 1 \<le> j"
      by linarith
    then show False
    proof cases
      case 1
      then have "prefixSum h (j + 1) \<le> prefixSum h i"
        using prefixSum_mono [OF nonneg _ i(1)] by simp
      then show False using j(3) i(3) by simp
    next
      case 2
      then have "prefixSum h (i + 1) \<le> prefixSum h j"
        using prefixSum_mono [OF nonneg, of "i + 1" j] j(1) by simp
      then show False using i(4) lt j(2) by simp
    qed
  qed
  then show ?thesis
    using i lt by blast
qed


text \<open>
  Tie-breaking over rows of height 0: on an index with the documented structure for whole
  heights, for every whole offset \<open>x\<close> below the total height \<^verbatim>\<open>getRowIdx(x)\<close> is the
  largest index whose prefix sum is at most \<open>x\<close>.
\<close>

lemma getRowIdx_largest:
  assumes ok: "rowInfo_ok (rowInfo st) (listLength st) h"
      and wh: "whole_heights h (listLength st)" and wx: "whole x"
      and x: "x < prefixSum h (listLength st)"
  shows "\<exists>i<listLength st. getRowIdx st (Num x) = int i \<and> prefixSum h i \<le> x \<and>
           (\<forall>j\<le>listLength st. prefixSum h j \<le> x \<longrightarrow> j \<le> i)"
proof -
  note nonneg = whole_heights_nonneg [OF wh]
  obtain i where i: "i \<le> listLength st" "getRowIdx st (Num x) = int i" "prefixSum h i \<le> x"
      "i < listLength st \<longrightarrow> x < prefixSum h (i + 1)"
    using getRowIdx_ok [OF ok wh wx] by blast
  have lt: "i < listLength st"
    using i(1,3) x by (cases "i = listLength st") auto
  have "j \<le> i" if j: "j \<le> listLength st" "prefixSum h j \<le> x" for j
  proof (rule ccontr)
    assume "\<not> j \<le> i"
    then have "i + 1 \<le> j" by simp
    then have "prefixSum h (i + 1) \<le> prefixSum h j"
      using prefixSum_mono [OF nonneg _ j(1)] by simp
    then show False
      using i(4) lt j(2) by simp
  qed
  then show ?thesis
    using i lt by blast
qed

text \<open>Four rows of heights 20, 0, 0, 30, as two redraws leave them: the offset 20 is
  the top of rows 1, 2 and 3, and the answer is 3.\<close>

lemma zero_rows_tie:
  "rowInfo zero_rows_state = [Num 20, Num 20, Num 0, Num 20, Num 0, Num 0, Num 30, Num 50] \<and>
   rowInfo_ok (rowInfo zero_rows_state) (listLength zero_rows_state) zero_rows_heights \<and>
   getRowTop zero_rows_state 1 = Num 20 \<and> getRowTop zero_rows_state 2 = Num 20 \<and>
   getRowTop zero_rows_state 3 = Num 20 \<and> getRowTop zero_rows_state 4 = Num 50 \<and>
   getRowIdx zero_rows_state (Num 20) = 3"
  by code_simp

text \<open>These heights are whole, and the lemma applies to them at the offset 20.\<close>

lemma zero_rows_whole:
  "whole_heights zero_rows_heights (listLength zero_rows_state)"
proof -
  have "listLength zero_rows_state = 4"
    by code_simp
  then show ?thesis
    by (simp add: whole_heights_def whole_def zero_rows_heights_def prefixSum_def
        atLeast0LessThan lessThan_Suc numeral_eq_Suc)
qed

lemma zero_rows_largest:
  "\<exists>i<listLength zero_rows_state. getRowIdx zero_rows_state (Num 20) = int i \<and>
      prefixSum zero_rows_heights i \<le> 20 \<and>
      (\<forall>j\<le>listLength zero_rows_state. prefixSum zero_rows_heights j \<le> 20 \<longrightarrow> j \<le> i)"
proof -
  have ok: "rowInfo_ok (rowInfo zero_rows_state) (listLength zero_rows_state) zero_rows_heights"
    by code_simp
  have wx: "whole 20"
    by (simp add: whole_def)
  have "listLength zero_rows_state = 4"
    by code_simp
  then have x: "20 < prefixSum zero_rows_heights (listLength zero_rows_state)"
    by (simp add: zero_rows_heights_def prefixSum_def atLeast0LessThan lessThan_Suc
        numeral_eq_Suc)
  show ?thesis
    using getRowIdx_largest [OF ok zero_rows_whole wx x] .
qed

section \<open>Which operations keep the documented structure\<close>

text \<open>
  The blocks that contain a row \<open>i\<close> are those that end at \<open>i\<close> with its low bits filled
  up with ones, which is the sequence of indices that the loop of \<^verbatim>\<open>update1\<close> visits.
\<close>

lemma pow2_le_dvd: "j \<le> k \<Longrightarrow> (2::nat) ^ j dvd 2 ^ k"
  by (rule le_imp_power_dvd)

lemma pow2_mult_lessD: "(2::nat) ^ j * a < 2 ^ j * b \<Longrightarrow> a < b"
  unfolding nat_mult_less_cancel_disj by simp

lemma div_pow2_pred:
  fixes ri :: nat
  assumes "ri + 1 = 2 ^ k * q"
  shows "ri div 2 ^ k = q - 1"
proof -
  have "q \<noteq> 0"
    using assms by (cases q) simp_all
  then obtain q' where q': "q = Suc q'"
    by (cases q) simp_all
  obtain n where n: "(2::nat) ^ k = Suc n"
    using gr0_implies_Suc [of "(2::nat) ^ k"] by auto
  have "ri = 2 ^ k * q' + n"
    using assms unfolding q' n by simp
  moreover have "n < 2 ^ k"
    using n by simp
  ultimately have "ri div 2 ^ k = q'"
    by simp
  then show ?thesis
    by (simp add: q')
qed

text \<open>The parity that \<^verbatim>\<open>(ri & bit) == 0\<close> tests once the low bits of \<open>ri\<close> are all set.\<close>

lemma and_pow2_succ:
  fixes ri :: nat
  assumes "2 ^ k dvd ri + 1"
  shows "ri AND 2 ^ k = 0 \<longleftrightarrow> odd ((ri + 1) div 2 ^ k)"
proof -
  obtain q where q: "ri + 1 = 2 ^ k * q"
    using assms by (elim dvdE)
  then have "q \<noteq> 0"
    by (cases q) simp_all
  have "(ri + 1) div 2 ^ k = q"
    unfolding q by simp
  moreover have "ri div 2 ^ k = q - 1"
    using q by (rule div_pow2_pred)
  moreover have "even (q - 1) \<longleftrightarrow> odd q"
    using \<open>q \<noteq> 0\<close> by (cases q) simp_all
  ultimately show ?thesis
    by (simp add: and_pow2_iff)
qed

text \<open>A block that reaches back over \<open>ri\<close> from a later row is wider than the power of
  two that divides \<open>ri + 1\<close>.\<close>

lemma in_block_wider:
  assumes d: "2 ^ k dvd ri + 1" and lt: "ri < m" and blk: "in_block ri m"
  shows "2 ^ Suc k dvd m + 1"
proof (rule blockSize_cases [of m])
  fix j c
  assume m: "m + 1 = 2 ^ j * (2 * c + 1)" and s: "blockSize m = 2 ^ j"
  have "k < j"
  proof (rule ccontr)
    assume "\<not> k < j"
    then have "(2::nat) ^ j dvd 2 ^ k"
      by (intro pow2_le_dvd) simp
    then have "2 ^ j dvd ri + 1"
      using d by (rule dvd_trans)
    then obtain e where e: "ri + 1 = 2 ^ j * e"
      by (elim dvdE)
    have "2 ^ j * e = ri + 1"
      by (rule e [symmetric])
    also have "\<dots> < m + 1"
      using lt by simp
    also have "\<dots> = 2 ^ j * (2 * c + 1)"
      by (rule m)
    finally have 1: "e < 2 * c + 1"
      by (rule pow2_mult_lessD)
    have "2 ^ j * (2 * c + 1) = m + 1"
      by (rule m [symmetric])
    also have "\<dots> < ri + 1 + 2 ^ j"
      using blk s unfolding in_block_def by linarith
    also have "\<dots> = 2 ^ j * e + 2 ^ j"
      by (simp only: e)
    also have "\<dots> = 2 ^ j * (e + 1)"
      by simp
    finally have "2 * c + 1 < e + 1"
      by (rule pow2_mult_lessD)
    then show False
      using 1 by simp
  qed
  then have "(2::nat) ^ Suc k dvd 2 ^ j"
    by (intro pow2_le_dvd) simp
  then show "2 ^ Suc k dvd m + 1"
    unfolding m by (rule dvd_mult2)
qed

lemma next_multiple:
  fixes ri m :: nat
  assumes q: "ri + 1 = 2 ^ k * (2 * c + 1)" and d: "2 ^ Suc k dvd m + 1" and lt: "ri < m"
  shows "ri + 2 ^ k \<le> m"
proof -
  obtain e where "m + 1 = 2 ^ Suc k * e"
    using d by (elim dvdE)
  then have e: "m + 1 = 2 ^ k * (2 * e)"
    by (simp add: algebra_simps)
  have "2 ^ k * (2 * c + 1) = ri + 1"
    by (rule q [symmetric])
  also have "\<dots> < m + 1"
    using lt by simp
  also have "\<dots> = 2 ^ k * (2 * e)"
    by (rule e)
  finally have "2 * c + 1 < 2 * e"
    by (rule pow2_mult_lessD)
  then have "2 * c + 2 \<le> 2 * e"
    by simp
  then have "2 ^ k * (2 * c + 2) \<le> 2 ^ k * (2 * e)"
    by (rule mult_le_mono2)
  moreover have "2 ^ k * (2 * c + 2) = 2 ^ k * (2 * c + 1) + 2 ^ k"
    by (simp add: algebra_simps)
  moreover note q [symmetric] e [symmetric]
  ultimately have "ri + 1 + 2 ^ k \<le> m + 1"
    by (simp only:)
  then show ?thesis
    by simp
qed

lemma in_block_next:
  assumes q: "ri + 1 = 2 ^ k * (2 * c + 1)"
  shows "in_block ri (ri + 2 ^ k)"
proof -
  have "ri + 2 ^ k + 1 = 2 ^ Suc k * (c + 1)"
    using q by (simp add: algebra_simps)
  then have "2 ^ Suc k dvd ri + 2 ^ k + 1"
    by (simp only: dvd_triv_left)
  then have "2 ^ Suc k dvd blockSize (ri + 2 ^ k)"
    by (rule blockSize_greatest)
  then have "2 ^ Suc k \<le> blockSize (ri + 2 ^ k)"
    using blockSize_pos [of "ri + 2 ^ k"] by (intro dvd_imp_le) simp_all
  moreover have "(1::nat) \<le> 2 ^ k"
    by simp
  ultimately show ?thesis
    unfolding in_block_def power_Suc by linarith
qed

lemma in_block_above:
  assumes q: "ri + 1 = 2 ^ k * (2 * c + 1)" and lt: "ri + 2 ^ k < m"
  shows "in_block (ri + 2 ^ k) m \<longleftrightarrow> in_block ri m"
proof
  assume "in_block ri m"
  then show "in_block (ri + 2 ^ k) m"
    using lt by (simp add: in_block_def)
next
  assume blk: "in_block (ri + 2 ^ k) m"
  have r': "ri + 2 ^ k + 1 = 2 ^ Suc k * (c + 1)"
    using q by (simp add: algebra_simps)
  then have "2 ^ Suc k dvd ri + 2 ^ k + 1"
    by (simp only: dvd_triv_left)
  then have "2 ^ Suc (Suc k) dvd m + 1"
    using lt blk by (rule in_block_wider)
  then have "2 ^ Suc k dvd m + 1"
    by (rule dvd_trans [rotated]) simp
  moreover have "2 ^ Suc k dvd blockSize m"
    using calculation by (rule blockSize_greatest)
  ultimately have "2 ^ Suc k dvd m + 1 - blockSize m"
    by (rule dvd_diff_nat)
  then obtain e where e: "m + 1 - blockSize m = 2 ^ Suc k * e"
    by (elim dvdE)
  have "m + 1 - blockSize m < ri + 2 ^ k + 1"
    using blk by (simp add: in_block_def)
  then have "2 ^ Suc k * e < 2 ^ Suc k * (c + 1)"
    unfolding e r' .
  then have "e < c + 1"
    by (rule pow2_mult_lessD)
  then have "e \<le> c"
    by simp
  then have "2 ^ Suc k * e \<le> 2 ^ Suc k * c"
    by (rule mult_le_mono2)
  also have "\<dots> \<le> ri"
  proof -
    have "2 ^ Suc k * c + 2 ^ k = ri + 1"
      using q by (simp add: algebra_simps)
    moreover have "(1::nat) \<le> 2 ^ k"
      by simp
    ultimately show ?thesis
      by linarith
  qed
  finally have "m + 1 - blockSize m \<le> ri"
    unfolding e .
  then show "in_block ri m"
    using lt unfolding in_block_def by linarith
qed


lemma aadd_nth:
  "j < length a \<Longrightarrow> i < length a \<Longrightarrow>
   aadd a j d ! i = (if i = j then js_add (a ! j) d else a ! i)"
  by (simp add: aadd_def aset_def aget_def)

lemma in_block_self: "in_block i i"
  using blockSize_pos [of i] unfolding in_block_def by linarith

lemma update1_loop_ok:
  "length info = 2 * len \<Longrightarrow> \<exists>k. bt = 2 ^ k \<and> 2 ^ k dvd ri + 1 \<Longrightarrow> ri < len \<Longrightarrow> m < len \<Longrightarrow>
   update1_loop info len diff bt ri ! (m * 2) = info ! (m * 2) \<and>
   update1_loop info len diff bt ri ! (m * 2 + 1) =
     (if ri < m \<and> in_block ri m then js_add (info ! (m * 2 + 1)) diff else info ! (m * 2 + 1))"
proof (induction info len diff bt ri rule: update1_loop.induct)
  case (1 info len diff bt ri)
  note len = "1.prems"(1) and ri = "1.prems"(3) and m = "1.prems"(4)
  obtain k where k: "bt = 2 ^ k" "2 ^ k dvd ri + 1"
    using "1.prems"(2) by blast
  have far: "2 ^ Suc k dvd m + 1" if "ri < m" "in_block ri m"
    using k(2) that by (rule in_block_wider)
  show ?case
  proof (cases "0 < bt \<and> bt < len")
    case False
    then have "len \<le> 2 ^ k"
      using k(1) by simp
    have "\<not> (ri < m \<and> in_block ri m)"
    proof
      assume "ri < m \<and> in_block ri m"
      then have "2 ^ Suc k dvd m + 1"
        using far by simp
      then have "2 ^ Suc k \<le> m + 1"
        by (rule dvd_imp_le) simp
      then show False
        using m \<open>len \<le> 2 ^ k\<close> by simp
    qed
    then show ?thesis
      unfolding update1_loop_stop [OF False] by auto
  next
    case True
    note run = this
    then have run': "0 < bt" "bt < len" by simp_all
    show ?thesis
    proof (cases "ri AND bt = 0")
      case False
      then have "even ((ri + 1) div 2 ^ k)"
        using and_pow2_succ [OF k(2)] k(1) by simp
      then have "2 ^ Suc k dvd ri + 1"
        by (rule pow2_dvd_even_div [OF k(2)])
      then have "\<exists>j. bt * 2 = 2 ^ j \<and> 2 ^ j dvd ri + 1"
        using k(1) by (intro exI [of _ "Suc k"]) simp
      then show ?thesis
        using "1.IH"(2) [OF run False len _ ri m] run' False
        by (simp add: update1_loop_skip)
    next
      case True
      note clear = this
      then have "odd ((ri + 1) div 2 ^ k)"
        using and_pow2_succ [OF k(2)] k(1) by simp
      then obtain c where c: "ri + 1 = 2 ^ k * (2 * c + 1)"
        using pow2_dvd_odd_div [OF k(2)] by blast
      have nxt: "ri + 2 ^ k \<le> m" if "ri < m" "in_block ri m"
        using c far [OF that] that(1) by (rule next_multiple)
      show ?thesis
      proof (cases "ri + bt \<ge> len")
        case True
        then have "\<not> (ri < m \<and> in_block ri m)"
          using nxt m k(1) by auto
        then show ?thesis
          unfolding update1_loop_exit [OF run' clear True] by auto
      next
        case False
        let ?r = "ri + bt"
        let ?i = "aadd info (?r * 2 + 1) diff"
        have a: "length ?i = 2 * len"
          using len False by simp
        have "?r + 1 = 2 ^ Suc k * (c + 1)"
          using c k(1) by (simp add: algebra_simps)
        then have "2 ^ Suc k dvd ?r + 1"
          by (simp only: dvd_triv_left)
        then have b: "\<exists>j. bt * 2 = 2 ^ j \<and> 2 ^ j dvd ?r + 1"
          using k(1) by (intro exI [of _ "Suc k"]) simp
        have r: "?r < len"
          using False by simp
        have ih: "update1_loop ?i len diff (bt * 2) ?r ! (m * 2) = ?i ! (m * 2) \<and>
                  update1_loop ?i len diff (bt * 2) ?r ! (m * 2 + 1) =
                    (if ?r < m \<and> in_block ?r m then js_add (?i ! (m * 2 + 1)) diff
                     else ?i ! (m * 2 + 1))"
          using "1.IH"(1) [OF run clear False a b r m] .
        have ne: "m * 2 \<noteq> ?r * 2 + 1"
          by presburger
        have e0: "?i ! (m * 2) = info ! (m * 2)"
          using len m r ne by (subst aadd_nth) simp_all
        have e1: "?i ! (m * 2 + 1) =
                    (if m = ?r then js_add (info ! (m * 2 + 1)) diff else info ! (m * 2 + 1))"
          using len m r by (subst aadd_nth) auto
        have iff: "(ri < m \<and> in_block ri m) \<longleftrightarrow> (m = ?r \<or> (?r < m \<and> in_block ?r m))"
        proof (cases "?r < m")
          case True
          then have "in_block ?r m \<longleftrightarrow> in_block ri m"
            using in_block_above [OF c, of m] k(1) by simp
          then show ?thesis
            using True by auto
        next
          case False
          show ?thesis
          proof (cases "m = ?r")
            case True
            then show ?thesis
              using in_block_next [OF c] k(1) run' by simp
          next
            case neq: False
            then have "m < ri + 2 ^ k"
              using False k(1) by simp
            then have "\<not> (ri < m \<and> in_block ri m)"
              using nxt by auto
            then show ?thesis
              using False neq by simp
          qed
        qed
        show ?thesis
          unfolding update1_loop_step [OF run' clear r]
          using ih e0 e1 iff by auto
      qed
    qed
  qed
qed

lemma sum_fun_upd:
  fixes h :: "nat \<Rightarrow> real"
  assumes "finite A"
  shows "(\<Sum>j\<in>A. (h(i := v)) j) = (\<Sum>j\<in>A. h j) + (if i \<in> A then v - h i else 0)"
proof (cases "i \<in> A")
  case True
  have "(\<Sum>j\<in>A. (h(i := v)) j) = v + (\<Sum>j\<in>A - {i}. (h(i := v)) j)"
    using assms True by (simp add: sum.remove)
  also have "(\<Sum>j\<in>A - {i}. (h(i := v)) j) = (\<Sum>j\<in>A - {i}. h j)"
    by (rule sum.cong) simp_all
  also have "(\<Sum>j\<in>A. h j) = h i + (\<Sum>j\<in>A - {i}. h j)"
    using assms True by (simp add: sum.remove)
  ultimately show ?thesis
    using True by simp
next
  case False
  have "(\<Sum>j\<in>A. (h(i := v)) j) = (\<Sum>j\<in>A. h j)"
    using False by (intro sum.cong) auto
  then show ?thesis
    using False by simp
qed

lemma blockSum_fun_upd:
  "blockSum (h(i := v)) m = blockSum h m + (if in_block i m then v - h i else 0)"
proof -
  have "i \<in> {m + 1 - blockSize m..<m + 1} \<longleftrightarrow> in_block i m"
    by (auto simp: in_block_def)
  then show ?thesis
    unfolding blockSum_def using sum_fun_upd [of "{m + 1 - blockSize m..<m + 1}" h i v]
    by simp
qed

text \<open>A point update inside the list keeps the documented structure, for the heights with
  row \<open>i\<close> set to the height read from the list, the heights being whole before and
  after.\<close>

lemma update1_ok:
  assumes ok: "rowInfo_ok (rowInfo st) (listLength st) h" and i: "i < listLength st"
      and wh: "whole_heights h (listLength st)"
      and wh': "whole_heights (h(i := newHeight P i)) (listLength st)"
  shows "rowInfo_ok (rowInfo (update1 P st i)) (listLength (update1 P st i))
           (h(i := newHeight P i))"
proof -
  let ?info = "rowInfo st" and ?len = "listLength st" and ?v = "newHeight P i"
  let ?d = "Num (?v - h i)"
  have len: "length ?info = 2 * ?len"
    using ok by (simp add: rowInfo_ok_def)
  have ent: "?info ! (m * 2) = Num (h m)" "?info ! (m * 2 + 1) = Num (blockSum h m)"
    if "m < ?len" for m
    using ok that by (simp_all add: rowInfo_ok_def)
  have diff: "js_sub (Num ?v) (aget ?info (i * 2)) = ?d"
    using ent(1) [OF i] len i by (simp add: aget_def)
  show ?thesis
  proof (cases "?v = h i")
    case True
    then have "update1 P st i = st"
      using diff by (simp add: update1_def)
    moreover have "h(i := ?v) = h"
      using True by simp
    ultimately show ?thesis
      using ok by simp
  next
    case False
    let ?a = "aadd (aadd ?info (i * 2) ?d) (i * 2 + 1) ?d"
    let ?r = "update1_loop ?a ?len ?d 1 i"
    have upd: "rowInfo (update1 P st i) = ?r"
      using False diff by (simp add: update1_def Let_def)
    have la: "length ?a = 2 * ?len"
      using len i by simp
    have a0: "?a ! (m * 2) = Num ((h(i := ?v)) m)" if "m < ?len" for m
      using len i that ent(1) [OF that] by (auto simp: aadd_nth)
    have a1: "?a ! (m * 2 + 1) = Num (blockSum h m + (if m = i then ?v - h i else 0))"
      if "m < ?len" for m
      using len i that ent(2) [OF that] by (auto simp: aadd_nth)
    have start: "\<exists>k. (1::nat) = 2 ^ k \<and> 2 ^ k dvd i + 1"
      by (intro exI [of _ 0]) simp
    have "?r ! (m * 2) = Num ((h(i := ?v)) m) \<and>
          ?r ! (m * 2 + 1) = Num (blockSum (h(i := ?v)) m)" if m: "m < ?len" for m
    proof -
      have r: "?r ! (m * 2) = ?a ! (m * 2)"
        "?r ! (m * 2 + 1) =
           (if i < m \<and> in_block i m then js_add (?a ! (m * 2 + 1)) ?d else ?a ! (m * 2 + 1))"
        using update1_loop_ok [OF la start i m, of ?d] by simp_all
      have blk: "in_block i m \<longleftrightarrow> m = i \<or> (i < m \<and> in_block i m)"
        using in_block_self [of i] by (auto simp: in_block_def)
      have "?r ! (m * 2 + 1) = Num (blockSum h m + (if in_block i m then ?v - h i else 0))"
        unfolding r(2) a1 [OF m] using blk by auto
      then show ?thesis
        using r(1) a0 [OF m] by (simp add: blockSum_fun_upd)
    qed
    moreover have "length ?r = 2 * ?len"
      using la by (rule update1_loop_length)
    ultimately show ?thesis
      unfolding upd by (simp add: rowInfo_ok_def)
  qed
qed


lemma fold_fill_nth:
  "k \<le> n \<Longrightarrow> length info = 2 * n \<Longrightarrow>
   length (fold (\<lambda>ri info. aset (aset info (ri * 2) u) (ri * 2 + 1) (w ri)) [0..<k] info) = 2 * n \<and>
   (\<forall>ri<k. fold (\<lambda>ri info. aset (aset info (ri * 2) u) (ri * 2 + 1) (w ri)) [0..<k] info ! (ri * 2) = u \<and>
            fold (\<lambda>ri info. aset (aset info (ri * 2) u) (ri * 2 + 1) (w ri)) [0..<k] info ! (ri * 2 + 1) = w ri)"
proof (induction k)
  case 0
  then show ?case by simp
next
  case (Suc k)
  let ?f = "\<lambda>ri info. aset (aset info (ri * 2) u) (ri * 2 + 1) (w ri)"
  let ?F = "fold ?f [0..<k] info"
  have ih: "length ?F = 2 * n" "\<And>ri. ri < k \<Longrightarrow> ?F ! (ri * 2) = u \<and> ?F ! (ri * 2 + 1) = w ri"
    using Suc by simp_all
  have step: "fold ?f [0..<Suc k] info = (?F[k * 2 := u])[k * 2 + 1 := w k]"
    using ih(1) Suc.prems(1) by (simp add: aset_def)
  have "((?F[k * 2 := u])[k * 2 + 1 := w k]) ! (ri * 2) = u \<and>
        ((?F[k * 2 := u])[k * 2 + 1 := w k]) ! (ri * 2 + 1) = w ri" if "ri < Suc k" for ri
  proof (cases "ri = k")
    case True
    then show ?thesis
      using ih(1) Suc.prems(1) by simp
  next
    case False
    then have "ri < k" using that by simp
    moreover have "ri * 2 \<noteq> k * 2" "ri * 2 \<noteq> k * 2 + 1" "ri * 2 + 1 \<noteq> k * 2"
        "ri * 2 + 1 \<noteq> k * 2 + 1"
      using False by presburger+
    ultimately show ?thesis
      using ih(2) [of ri] by (simp del: One_nat_def add: nth_list_update)
  qed
  then show ?case
    unfolding step using ih(1) by simp
qed

lemma blockSum_const: "blockSum (\<lambda>_. c) ri = c * real (blockSize ri)"
proof -
  have "card {ri + 1 - blockSize ri..<ri + 1} = blockSize ri"
    using blockSize_le [of ri] by simp
  then show ?thesis
    by (simp add: blockSum_def)
qed

text \<open>\<^verbatim>\<open>updateAll\<close> builds the documented structure, every height being the default, a
  whole number.\<close>

lemma updateAll_ok:
  assumes "whole_heights (\<lambda>_. defaultHeight P) (length (list P))"
  shows
  "rowInfo_ok (rowInfo (updateAll P st)) (listLength (updateAll P st)) (\<lambda>_. defaultHeight P)"
  using fold_fill_nth [of "length (list P)" "length (list P)"
      "replicate (length (list P) * 2) Undefined" "Num (defaultHeight P)"
      "\<lambda>ri. Num (defaultHeight P * real (blockSize ri))"]
  by (simp add: updateAll_def Let_def rowInfo_ok_def blockSum_const)

text \<open>So does cutting the array down to fewer rows.\<close>

lemma take_ok:
  "rowInfo_ok info len h \<Longrightarrow> n \<le> len \<Longrightarrow> rowInfo_ok (take (n * 2) info) n h"
  by (simp add: rowInfo_ok_def)

text \<open>A range of point updates, for heights that are whole whichever of the rows have
  been read again.\<close>

lemma fold_update1_ok:
  "rowInfo_ok (rowInfo st) (listLength st) h \<Longrightarrow>
   \<forall>g. (\<forall>j. g j = h j \<or> g j = newHeight P j) \<longrightarrow> whole_heights g (listLength st) \<Longrightarrow>
   \<forall>i\<in>set xs. i < listLength st \<Longrightarrow>
   \<exists>h'. rowInfo_ok (rowInfo (fold (\<lambda>ri s. update1 P s ri) xs st)) (listLength st) h' \<and>
        (\<forall>j. h' j = h j \<or> h' j = newHeight P j)"
proof (induction xs arbitrary: st h)
  case Nil
  then show ?case by auto
next
  case (Cons x xs)
  have wh: "whole_heights h (listLength st)"
    using Cons.prems(2) by simp
  have wh': "whole_heights (h(x := newHeight P x)) (listLength st)"
    using Cons.prems(2) by simp
  have x: "x < listLength st"
    using Cons.prems(3) by simp
  have "rowInfo_ok (rowInfo (update1 P st x)) (listLength (update1 P st x))
          (h(x := newHeight P x))"
    using update1_ok [OF Cons.prems(1) x wh wh'] .
  moreover have "\<forall>g. (\<forall>j. g j = (h(x := newHeight P x)) j \<or> g j = newHeight P j) \<longrightarrow>
      whole_heights g (listLength (update1 P st x))"
  proof (intro allI impI)
    fix g
    assume "\<forall>j. g j = (h(x := newHeight P x)) j \<or> g j = newHeight P j"
    then have "\<forall>j. g j = h j \<or> g j = newHeight P j"
      by (auto split: if_splits)
    then show "whole_heights g (listLength (update1 P st x))"
      using Cons.prems(2) by simp
  qed
  moreover have "\<forall>i\<in>set xs. i < listLength (update1 P st x)"
    using Cons.prems by simp
  ultimately obtain h' where h': "rowInfo_ok
        (rowInfo (fold (\<lambda>ri s. update1 P s ri) xs (update1 P st x)))
        (listLength (update1 P st x)) h'"
      "\<forall>j. h' j = (h(x := newHeight P x)) j \<or> h' j = newHeight P j"
    using Cons.IH by blast
  have "\<forall>j. h' j = h j \<or> h' j = newHeight P j"
    using h'(2) by (auto split: if_splits)
  then show ?case
    using h'(1) by auto
qed

lemma updateRange_ok:
  assumes "rowInfo_ok (rowInfo st) (listLength st) h"
      and "\<forall>g. (\<forall>j. g j = h j \<or> g j = newHeight P j) \<longrightarrow> whole_heights g (listLength st)"
  shows "\<exists>h'. rowInfo_ok (rowInfo (updateRange P st a b)) (listLength st) h' \<and>
              (\<forall>j. h' j = h j \<or> h' j = newHeight P j)"
  unfolding updateRange_def using assms by (rule fold_update1_ok) auto

text \<open>
  \<^verbatim>\<open>update\<close> keeps the documented structure whenever it does not take its third branch,
  that is, unless a list grows while the index is not empty; the heights are whole
  whichever rows hold their old height, the default or the height read from the list.
\<close>

lemma update_ok:
  assumes ok: "rowInfo_ok (rowInfo st) (listLength st) h"
      and no_growth: "listLength st = 0 \<or> length (list P) \<le> listLength st"
      and mix: "\<forall>g. (\<forall>j. g j = h j \<or> g j = defaultHeight P \<or> g j = newHeight P j) \<longrightarrow>
                 whole_heights g (length (list P))"
  shows "\<exists>h'. rowInfo_ok (rowInfo (update P st)) (listLength (update P st)) h' \<and>
              (\<forall>j. h' j = h j \<or> h' j = defaultHeight P \<or> h' j = newHeight P j)"
proof -
  let ?n = "listLength st" and ?m = "length (list P)"
  have whd: "whole_heights (\<lambda>_. defaultHeight P) ?m"
    using mix by simp
  have len: "listLength (update_resized P st) = ?m"
    using no_growth by (auto simp: update_resized_def updateAll_def Let_def)
  have "\<exists>g. rowInfo_ok (rowInfo (update_resized P st)) (listLength (update_resized P st)) g \<and>
            (\<forall>j. g j = h j \<or> g j = defaultHeight P)"
  proof (cases "?n = 0")
    case True
    then show ?thesis
      using updateAll_ok [OF whd, of st] by (auto simp: update_resized_def)
  next
    case False
    then have le: "?m \<le> ?n"
      using no_growth by simp
    show ?thesis
    proof (cases "?m < ?n")
      case True
      then show ?thesis
        using False take_ok [OF ok le] by (auto simp: update_resized_def)
    next
      case False
      then show ?thesis
        using le ok \<open>?n \<noteq> 0\<close> by (auto simp: update_resized_def)
    qed
  qed
  then obtain g where g: "rowInfo_ok (rowInfo (update_resized P st))
        (listLength (update_resized P st)) g" "\<forall>j. g j = h j \<or> g j = defaultHeight P"
    by blast
  have "\<forall>k. (\<forall>j. k j = g j \<or> k j = newHeight P j) \<longrightarrow>
      whole_heights k (listLength (update_resized P st))"
  proof (intro allI impI)
    fix k
    assume "\<forall>j. k j = g j \<or> k j = newHeight P j"
    then have "\<forall>j. k j = h j \<or> k j = defaultHeight P \<or> k j = newHeight P j"
      using g(2) by metis
    then show "whole_heights k (listLength (update_resized P st))"
      using mix len by simp
  qed
  then obtain h' where h': "rowInfo_ok
        (rowInfo (updateRange P (update_resized P st) (startIdx st) (endIdx st)))
        (listLength (update_resized P st)) h'" "\<forall>j. h' j = g j \<or> h' j = newHeight P j"
    using updateRange_ok [OF g(1)] by blast
  have "\<forall>j. h' j = h j \<or> h' j = defaultHeight P \<or> h' j = newHeight P j"
    using g(2) h'(2) by metis
  then show ?thesis
    using h'(1) by (auto simp: update_unfold)
qed


lemma init_ok: "rowInfo_ok (rowInfo init) (listLength init) h"
  by (simp add: init_def rowInfo_ok_def)

lemma directSum_ok:
  "rowInfo_ok info len h \<Longrightarrow> whole_heights h len \<Longrightarrow> k \<le> len \<Longrightarrow>
   directSum info k = Num (prefixSum h k)"
proof (induction k)
  case 0
  show ?case by (simp add: directSum_def)
next
  case (Suc k)
  then have "aget info (k * 2) = Num (h k)"
    by (simp add: rowInfo_ok_def aget_def)
  then show ?case
    using Suc by (simp add: directSum_def prefixSum_Suc)
qed

text \<open>On an index with the documented structure for whole heights \<^verbatim>\<open>getRowTop(k)\<close> is the
  direct sum of the stored heights, for every \<open>k\<close> up to the length.\<close>

lemma getRowTop_direct:
  assumes ok: "rowInfo_ok (rowInfo st) (listLength st) h"
      and wh: "whole_heights h (listLength st)" and k: "k \<le> listLength st"
  shows "getRowTop st k = directSum (rowInfo st) k"
  using getRowTop_ok [OF ok wh k] directSum_ok [OF ok wh k] by simp


section \<open>Growing a non-empty index\<close>

text \<open>
  The lemmas above cover \<^verbatim>\<open>updateAll\<close>, \<^verbatim>\<open>update1\<close> inside the list, truncation, and
  \<^verbatim>\<open>update\<close> unless the list grows while the index is not empty. In that branch
  \<^verbatim>\<open>update\<close> appends zeros and runs \<^verbatim>\<open>update1\<close> on the new rows only, so a new block that
  also spans old rows never receives their heights.
\<close>

text \<open>
  C1 (prefix sums) at a state reached by a resize: after the index of one row (height 50)
  has grown to three rows (the new ones of height 10), \<^verbatim>\<open>getRowTop(2)\<close> is 10, while the
  stored heights of rows 0 and 1 add up to 60.
\<close>

theorem grown_getRowTop:
  "getRowTop grown_state 2 = Num 10 \<and> directSum (rowInfo grown_state) 2 = Num 60"
  by code_simp

text \<open>
  C2 (locate) at the same state: the stored heights are 50, 10, 10, so offset 15 lies in
  row 0, which spans \<open>[0, 50)\<close>; \<^verbatim>\<open>getRowIdx(15)\<close> answers 2.
\<close>

theorem grown_getRowIdx:
  "getRowIdx grown_state (Num 15) = 2 \<and>
   directSum (rowInfo grown_state) 0 = Num 0 \<and> directSum (rowInfo grown_state) 1 = Num 50 \<and>
   directSum (rowInfo grown_state) 2 = Num 60 \<and> directSum (rowInfo grown_state) 3 = Num 70"
  by code_simp

text \<open>
  C3 (accumulator structure) at the same state: row 1 ends a block of size 2, so
  \<^verbatim>\<open>rowInfo[3]\<close> should be \<^verbatim>\<open>h[0] + h[1] = 60\<close>; it is 10.
\<close>

theorem grown_rowInfo:
  "rowInfo grown_state = [Num 50, Num 50, Num 10, Num 10, Num 10, Num 10] \<and>
   listLength grown_state = 3 \<and> blockSize 1 = 2"
  by code_simp

text \<open>
  C10 (tie-breaking of locate) at the same state: the list has three rows, the stored
  heights add up to 70, and of the indices 0 to 3 only index 0 has a prefix sum of the
  stored heights that is at most 15, so the largest such index is 0; \<^verbatim>\<open>getRowIdx(15)\<close>
  answers 2.
\<close>

theorem grown_getRowIdx_not_largest:
  "listLength grown_state = 3 \<and>
   directSum (rowInfo grown_state) 3 = Num 70 \<and>
   filter (\<lambda>i. js_ge (Num 15) (directSum (rowInfo grown_state) i)) [0 ..< 4] = [0] \<and>
   getRowIdx grown_state (Num 15) = 2"
  by code_simp

text \<open>Two redraws, the first with the list of one row and the second with the list of
  three, leave the same array, and a screen height of 20 for rows of 50, 10 and 10.\<close>

lemma grown_state_by_redraw:
  "rowInfo (redraw grow_props3 (scen_env 0) (redraw grow_props1 (scen_env 0) init))
     = rowInfo grown_state \<and>
   screenHeight (redraw grow_props3 (scen_env 0) (redraw grow_props1 (scen_env 0) init))
     = Num 20"
  by code_simp

end
